theory Spec2Isabelle
  imports Main "HOL-Library.Word"
begin

unbundle bit_operations_syntax

section \<open>Machine types\<close>

text \<open>
  \<^verbatim>\<open>unsigned int\<close> is 32 bits wide and \<^verbatim>\<open>size_t\<close> 64 bits wide (LP64);
  \<^verbatim>\<open>glyph_index\<close> is \<^verbatim>\<open>uint16_t\<close> (fonts.c, line 13). The error code that the
  sprite functions write through \<^verbatim>\<open>int *error\<close> only ever holds 0, 1 or 2 and is never
  computed with, so it is an \<open>int\<close>.
\<close>

type_synonym uint = "32 word"
type_synonym size_t = "64 word"
type_synonym glyph_index = "16 word"

text \<open>
  \<^verbatim>\<open>sprite_index\<close> is declared in a header of the repository; the fields of that type are
  handed to \<^verbatim>\<open>Py_BuildValue("HHH", ...)\<close> (fonts.c, line 466), the format of an
  \<^verbatim>\<open>unsigned short\<close>, so it is taken as 16 bits wide.
\<close>

type_synonym sprite_index = "16 word"

section \<open>Sprite tracker (fonts.c, lines 28-79 and 143-149)\<close>

record GPUSpriteTracker =
  max_array_len :: size_t
  max_texture_size :: size_t
  max_y :: size_t
  t_x :: uint
  t_y :: uint
  t_z :: uint
  t_xnum :: uint
  t_ynum :: uint

text \<open>The static initialiser of \<^verbatim>\<open>sprite_tracker\<close>; unnamed fields are zero.\<close>

definition sprite_tracker_init :: GPUSpriteTracker where
  "sprite_tracker_init =
     \<lparr>max_array_len = 1000, max_texture_size = 1000, max_y = 100,
      t_x = 0, t_y = 0, t_z = 0, t_xnum = 0, t_ynum = 0\<rparr>"

definition sprite_tracker_set_limits :: "GPUSpriteTracker \<Rightarrow> size_t \<Rightarrow> size_t \<Rightarrow> GPUSpriteTracker" where
  "sprite_tracker_set_limits t mts mal = t\<lparr>max_texture_size := mts, max_array_len := mal\<rparr>"

text \<open>
  \<^verbatim>\<open>UINT16_MAX\<close> is 65535. The macros \<^verbatim>\<open>MIN\<close> and \<^verbatim>\<open>MAX\<close> compare their
  arguments after the usual arithmetic conversions; all the operands here are unsigned or
  non-negative constants, so they are \<open>min\<close> and \<open>max\<close> at the wider operand type. Storing a
  \<^verbatim>\<open>size_t\<close> into an \<^verbatim>\<open>unsigned int\<close> keeps the low 32 bits (\<open>ucast\<close>).

  \<^verbatim>\<open>do_increment(int *error)\<close> takes the value at \<^verbatim>\<open>*error\<close> and returns the new one
  beside the new tracker.
\<close>

definition UINT16_MAX :: nat where
  "UINT16_MAX = 65535"

definition do_increment :: "GPUSpriteTracker \<Rightarrow> int \<Rightarrow> GPUSpriteTracker \<times> int" where
  "do_increment t err =
     (let t1 = t\<lparr>t_x := t_x t + 1\<rparr> in
      if t_x t1 \<ge> t_xnum t1 then
        let t2 = t1\<lparr>t_x := 0, t_y := t_y t1 + 1\<rparr>;
            t3 = t2\<lparr>t_ynum := ucast (min (ucast (max (t_ynum t2) (t_y t2 + 1))) (max_y t2))\<rparr>
        in if (ucast (t_y t3) :: size_t) \<ge> max_y t3 then
             let t4 = t3\<lparr>t_y := 0, t_z := t_z t3 + 1\<rparr> in
             if (ucast (t_z t4) :: size_t) \<ge> min (of_nat UINT16_MAX) (max_array_len t4)
             then (t4, 2) else (t4, err)
           else (t3, err)
      else (t1, err))"

text \<open>
  \<^verbatim>\<open>sprite_tracker_set_layout\<close> divides by the cell width and by the cell height; a zero
  divisor traps in C, which is the result \<open>None\<close> here.
\<close>

definition sprite_tracker_set_layout :: "GPUSpriteTracker \<Rightarrow> uint \<Rightarrow> uint \<Rightarrow> GPUSpriteTracker option" where
  "sprite_tracker_set_layout t cell_width cell_height =
     (if cell_width = 0 \<or> cell_height = 0 then None
      else Some (t\<lparr>
        t_xnum := ucast (min (max 1 (max_texture_size t div ucast cell_width)) (of_nat UINT16_MAX)),
        max_y := min (max 1 (max_texture_size t div ucast cell_height)) (of_nat UINT16_MAX),
        t_ynum := 1, t_x := 0, t_y := 0, t_z := 0\<rparr>))"

definition sprite_tracker_current_layout :: "GPUSpriteTracker \<Rightarrow> uint \<times> uint \<times> uint" where
  "sprite_tracker_current_layout t = (t_xnum t, t_ynum t, t_z t)"


text \<open>Concrete tracker states used to run the code below.\<close>

definition tracker_16_2 :: GPUSpriteTracker where
  "tracker_16_2 = sprite_tracker_set_limits sprite_tracker_init 16 2"

definition tracker_last_slot :: GPUSpriteTracker where
  "tracker_last_slot =
     \<lparr>max_array_len = 2, max_texture_size = 16, max_y = 2,
      t_x = 1, t_y = 1, t_z = 1, t_xnum = 2, t_ynum = 2\<rparr>"

definition tracker_z65534 :: GPUSpriteTracker where
  "tracker_z65534 =
     \<lparr>max_array_len = 100000, max_texture_size = 8, max_y = 1,
      t_x = 0, t_y = 0, t_z = 65534, t_xnum = 1, t_ynum = 1\<rparr>"

section \<open>Glyph loading (freetype.c, lines 157-173)\<close>

text \<open>
  The load flags are FreeType's (\<^verbatim>\<open>freetype.h\<close>, an external library):
  \<^verbatim>\<open>FT_LOAD_DEFAULT\<close> is 0, \<^verbatim>\<open>FT_LOAD_NO_HINTING\<close> is \<^verbatim>\<open>1 << 1\<close>,
  \<^verbatim>\<open>FT_LOAD_RENDER\<close> is \<^verbatim>\<open>1 << 2\<close>, and the hinting target of render mode \<open>m\<close> is
  \<^verbatim>\<open>FT_LOAD_TARGET_(m) = (m & 15) << 16\<close>, read back by
  \<^verbatim>\<open>FT_LOAD_TARGET_MODE(f) = (f >> 16) & 15\<close>, with \<^verbatim>\<open>FT_RENDER_MODE_NORMAL = 0\<close> and
  \<^verbatim>\<open>FT_RENDER_MODE_LIGHT = 1\<close>. Flags are 32-bit; \<^verbatim>\<open>hinting\<close> and \<^verbatim>\<open>hintstyle\<close> are C
  \<^verbatim>\<open>int\<close>s that are only compared, so they are \<open>int\<close>.
\<close>

definition FT_LOAD_DEFAULT :: "32 word" where "FT_LOAD_DEFAULT = 0"
definition FT_LOAD_NO_HINTING :: "32 word" where "FT_LOAD_NO_HINTING = push_bit 1 1"
definition FT_LOAD_RENDER :: "32 word" where "FT_LOAD_RENDER = push_bit 2 1"
definition FT_RENDER_MODE_NORMAL :: "32 word" where "FT_RENDER_MODE_NORMAL = 0"
definition FT_RENDER_MODE_LIGHT :: "32 word" where "FT_RENDER_MODE_LIGHT = 1"
definition FT_LOAD_TARGET :: "32 word \<Rightarrow> 32 word" where
  "FT_LOAD_TARGET m = push_bit 16 (m AND 15)"
definition FT_LOAD_TARGET_NORMAL :: "32 word" where
  "FT_LOAD_TARGET_NORMAL = FT_LOAD_TARGET FT_RENDER_MODE_NORMAL"
definition FT_LOAD_TARGET_LIGHT :: "32 word" where
  "FT_LOAD_TARGET_LIGHT = FT_LOAD_TARGET FT_RENDER_MODE_LIGHT"
definition FT_LOAD_TARGET_MODE :: "32 word \<Rightarrow> 32 word" where
  "FT_LOAD_TARGET_MODE f = drop_bit 16 f AND 15"

definition get_load_flags :: "int \<Rightarrow> int \<Rightarrow> 32 word \<Rightarrow> 32 word" where
  "get_load_flags hinting hintstyle base =
     (if hinting \<noteq> 0 then
        (if hintstyle \<ge> 3 then base OR FT_LOAD_TARGET_NORMAL
         else if 0 < hintstyle \<and> hintstyle < 3 then base OR FT_LOAD_TARGET_LIGHT
         else base)
      else base OR FT_LOAD_NO_HINTING)"

text \<open>
  The part of \<^verbatim>\<open>Face\<close> that the functions below read or write. The FreeType face handle
  is external; what it renders depends on the size last set, which the record carries.
  \<^verbatim>\<open>FT_F26Dot6\<close> is a \<^verbatim>\<open>signed long\<close> that is only passed on, so it is an \<open>int\<close>.
\<close>

record Face =
  hinting :: int
  hintstyle :: int
  is_scalable :: bool
  char_width :: int
  char_height :: int
  xdpi :: uint
  ydpi :: uint

text \<open>
  \<^verbatim>\<open>FT_Bitmap\<close> (FreeType): \<^verbatim>\<open>rows\<close> and \<^verbatim>\<open>width\<close> are \<^verbatim>\<open>unsigned int\<close>, \<^verbatim>\<open>pitch\<close> is
  an \<^verbatim>\<open>int\<close>, \<^verbatim>\<open>buffer\<close> points to the bytes, here the byte at each offset from it.
\<close>

record FT_Bitmap =
  bitmap_rows :: uint
  bitmap_width :: uint
  bitmap_pitch :: int
  bitmap_buffer :: "size_t \<Rightarrow> 8 word"

record ProcessedBitmap =
  pb_buf :: "size_t \<Rightarrow> 8 word"
  pb_start_x :: size_t
  pb_width :: size_t
  pb_stride :: size_t
  pb_rows :: size_t

text \<open>
  \<^verbatim>\<open>load_glyph\<close>: the library call \<^verbatim>\<open>FT_Load_Glyph\<close> is a parameter that, for the face,
  the glyph and the flags, gives the error code and the bitmap left in the glyph slot.
  The result is \<open>None\<close> where the C function returns false.
\<close>

definition load_glyph ::
  "(Face \<Rightarrow> int \<Rightarrow> 32 word \<Rightarrow> int \<times> FT_Bitmap) \<Rightarrow> Face \<Rightarrow> int \<Rightarrow> FT_Bitmap option" where
  "load_glyph FT_Load_Glyph self glyph_index =
     (let flags = get_load_flags (hinting self) (hintstyle self) FT_LOAD_RENDER;
          (error, bitmap) = FT_Load_Glyph self glyph_index flags
      in if error \<noteq> 0 then None else Some bitmap)"

text \<open>
  \<^verbatim>\<open>set_font_size\<close> (lines 74-93): \<^verbatim>\<open>FT_Set_Char_Size\<close> is a parameter giving the error
  code; the notification of the shaper has no effect on the fields modelled.
\<close>

definition set_font_size ::
  "(Face \<Rightarrow> int \<Rightarrow> int \<Rightarrow> uint \<Rightarrow> uint \<Rightarrow> int) \<Rightarrow> Face \<Rightarrow> int \<Rightarrow> int \<Rightarrow> uint \<Rightarrow> uint \<Rightarrow> Face option" where
  "set_font_size FT_Set_Char_Size self cw ch xd yd =
     (let error = FT_Set_Char_Size self cw ch xd yd in
      if error = 0 then Some (self\<lparr>char_width := cw, char_height := ch, xdpi := xd, ydpi := yd\<rparr>)
      else None)"

section \<open>Trimming and rendering a bitmap (freetype.c, lines 269-316)\<close>

text \<open>
  The inner loop of \<^verbatim>\<open>trim_borders\<close>: scan column \<open>x\<close> from row \<open>y\<close> on, until a sample
  above 200 is seen. \<open>x\<close> is the \<^verbatim>\<open>ssize_t\<close> column as a 64-bit pattern; in
  \<^verbatim>\<open>x + y * stride\<close> it is converted to \<^verbatim>\<open>size_t\<close>.
\<close>

function column_scan :: "ProcessedBitmap \<Rightarrow> size_t \<Rightarrow> size_t \<Rightarrow> bool \<Rightarrow> bool" where
  "column_scan ans x y column_has_text =
     (if y < pb_rows ans \<and> \<not> column_has_text
      then column_scan ans x (y + 1)
             (if pb_buf ans (x + y * pb_stride ans) > 200 then True else column_has_text)
      else column_has_text)"
  by pat_completeness auto
termination
proof (relation "measure (\<lambda>(ans, x, y, c). unat (pb_rows ans) - unat y)")
  show "wf (measure (\<lambda>(ans, x, y, c). unat (pb_rows ans) - unat y))" by simp
next
  fix ans :: ProcessedBitmap and x y :: size_t and column_has_text :: bool
  assume "y < pb_rows ans \<and> \<not> column_has_text"
  then have "y < pb_rows ans" by simp
  then have "unat (pb_rows ans) - unat (y + 1) < unat (pb_rows ans) - unat y" by unat_arith
  then show "((ans, x, y + 1, if 200 < pb_buf ans (x + y * pb_stride ans) then True else column_has_text),
          (ans, x, y, column_has_text)) \<in> measure (\<lambda>(ans, x, y, c). unat (pb_rows ans) - unat y)"
    by simp
qed

text \<open>
  The outer loop of \<^verbatim>\<open>trim_borders\<close>, from column \<open>x\<close> leftwards; \<^verbatim>\<open>x > -1\<close> is a signed
  comparison. It returns the bitmap and what is left of \<open>extra\<close>.
\<close>

function trim_loop :: "ProcessedBitmap \<Rightarrow> size_t \<Rightarrow> bool \<Rightarrow> size_t \<Rightarrow> ProcessedBitmap \<times> size_t" where
  "trim_loop ans extra column_has_text x =
     (if \<not> column_has_text \<and> (- 1) <s x \<and> extra > 0 then
        let c = column_scan ans x 0 column_has_text in
        if \<not> c then trim_loop (ans\<lparr>pb_width := pb_width ans - 1\<rparr>) (extra - 1) c (x - 1)
        else trim_loop ans extra c (x - 1)
      else (ans, extra))"
  by pat_completeness auto
termination
proof (relation "measure (\<lambda>(ans, extra, c, x). if c then 0 else Suc (unat extra))")
  show "wf (measure (\<lambda>(ans, extra, c, x). if c then 0 else Suc (unat extra)))" by simp
next
  fix ans :: ProcessedBitmap and extra x :: size_t and column_has_text c :: bool
  assume a: "\<not> column_has_text \<and> (- 1) <s x \<and> 0 < extra"
    and c: "c = column_scan ans x 0 column_has_text" "\<not> c"
  from a have "0 < extra" by simp
  then have "unat (extra - 1) < unat extra" by unat_arith
  with a c show "((ans\<lparr>pb_width := pb_width ans - 1\<rparr>, extra - 1, c, x - 1), (ans, extra, column_has_text, x))
      \<in> measure (\<lambda>(ans, extra, c, x). if c then 0 else Suc (unat extra))"
    by simp
next
  fix ans :: ProcessedBitmap and extra x :: size_t and column_has_text c :: bool
  assume a: "\<not> column_has_text \<and> (- 1) <s x \<and> 0 < extra"
    and c: "c = column_scan ans x 0 column_has_text" "\<not> \<not> c"
  then show "((ans, extra, c, x - 1), (ans, extra, column_has_text, x))
      \<in> measure (\<lambda>(ans, extra, c, x). if c then 0 else Suc (unat extra))"
    by simp
qed

definition trim_borders :: "ProcessedBitmap \<Rightarrow> size_t \<Rightarrow> ProcessedBitmap" where
  "trim_borders ans extra =
     (let (ans1, extra1) = trim_loop ans extra False (pb_width ans - 1)
      in ans1\<lparr>pb_start_x := extra1, pb_width := pb_width ans1 - extra1\<rparr>)"

text \<open>
  \<^verbatim>\<open>render_bitmap\<close>. The out-parameter \<^verbatim>\<open>ans\<close> is passed in and returned with the success
  flag and the face. \<^verbatim>\<open>italic\<close> and \<^verbatim>\<open>bold\<close> are C \<^verbatim>\<open>int\<close>s used as truth values. The
  sizes of the rescaling retry are computed in \<^verbatim>\<open>float\<close>:
  \<^verbatim>\<open>(FT_F26Dot6)((float)size * ((float)max_width / (float)bitmap->width))\<close> is the parameter
  \<open>scaled size max_width width\<close>.
\<close>

function render_bitmap ::
  "(Face \<Rightarrow> int \<Rightarrow> 32 word \<Rightarrow> int \<times> FT_Bitmap) \<Rightarrow> (Face \<Rightarrow> int \<Rightarrow> int \<Rightarrow> uint \<Rightarrow> uint \<Rightarrow> int) \<Rightarrow>
   (int \<Rightarrow> uint \<Rightarrow> uint \<Rightarrow> int) \<Rightarrow>
   Face \<Rightarrow> int \<Rightarrow> ProcessedBitmap \<Rightarrow> uint \<Rightarrow> uint \<Rightarrow> int \<Rightarrow> int \<Rightarrow> bool \<Rightarrow>
   bool \<times> Face \<times> ProcessedBitmap" where
  "render_bitmap FT_Load_Glyph FT_Set_Char_Size scaled self glyph_id ans cell_width num_cells bold italic rescale =
     (case load_glyph FT_Load_Glyph self glyph_id of
        None \<Rightarrow> (False, self, ans)
      | Some bitmap \<Rightarrow>
          let max_width = cell_width * num_cells;
              ans1 = \<lparr>pb_buf = bitmap_buffer bitmap, pb_start_x = 0,
                      pb_width = ucast (bitmap_width bitmap),
                      pb_stride = (if bitmap_pitch bitmap < 0 then word_of_int (- bitmap_pitch bitmap)
                                   else word_of_int (bitmap_pitch bitmap)),
                      pb_rows = ucast (bitmap_rows bitmap)\<rparr>
          in if pb_width ans1 > ucast max_width then
               let extra = (ucast (bitmap_width bitmap - max_width) :: size_t) in
               if italic \<noteq> 0 \<and> extra < ucast (cell_width div 2) then
                 (True, self, trim_borders ans1 extra)
               else if rescale \<and> is_scalable self \<and> extra > ucast (max 2 (cell_width div 3)) then
                 (case set_font_size FT_Set_Char_Size self
                         (scaled (char_width self) max_width (bitmap_width bitmap))
                         (scaled (char_height self) max_width (bitmap_width bitmap))
                         (xdpi self) (ydpi self) of
                    None \<Rightarrow> (True, self, ans1)
                  | Some self1 \<Rightarrow>
                      (case render_bitmap FT_Load_Glyph FT_Set_Char_Size scaled self1 glyph_id ans1
                              cell_width num_cells bold italic False of
                         (False, self2, ans2) \<Rightarrow> (False, self2, ans2)
                       | (True, self2, ans2) \<Rightarrow>
                           (case set_font_size FT_Set_Char_Size self2 (char_width self) (char_height self)
                                   (xdpi self2) (ydpi self2) of
                              None \<Rightarrow> (False, self2, ans2)
                            | Some self3 \<Rightarrow> (True, self3, ans2))))
               else (True, self, ans1)
             else (True, self, ans1))"
  by pat_completeness auto
termination
  by (relation "measure (\<lambda>(l, s, c, self, g, ans, cw, nc, b, i, rescale). if rescale then 1 else 0)") auto

declare column_scan.simps [simp del] trim_loop.simps [simp del] render_bitmap.simps [simp del]

text \<open>A column of the bitmap is empty if none of its samples exceeds 200.\<close>

definition column_empty :: "ProcessedBitmap \<Rightarrow> size_t \<Rightarrow> bool" where
  "column_empty ans x = (\<forall>y. y < pb_rows ans \<longrightarrow> \<not> pb_buf ans (x + y * pb_stride ans) > 200)"

text \<open>Concrete inputs: a face, two one-row glyph bitmaps and library calls that succeed.\<close>

definition face0 :: Face where
  "face0 = \<lparr>hinting = 1, hintstyle = 3, is_scalable = True, char_width = 640, char_height = 640,
            xdpi = 96, ydpi = 96\<rparr>"

definition ans0 :: ProcessedBitmap where
  "ans0 = \<lparr>pb_buf = (\<lambda>_. 0), pb_start_x = 0, pb_width = 0, pb_stride = 0, pb_rows = 0\<rparr>"

definition glyph_5x1 :: FT_Bitmap where
  "glyph_5x1 = \<lparr>bitmap_rows = 1, bitmap_width = 5, bitmap_pitch = 5, bitmap_buffer = (\<lambda>_. 255)\<rparr>"

definition glyph_8x1 :: FT_Bitmap where
  "glyph_8x1 = \<lparr>bitmap_rows = 1, bitmap_width = 8, bitmap_pitch = 8,
                 bitmap_buffer = (\<lambda>i. if i = 7 then 0 else 255)\<rparr>"

definition loads :: "FT_Bitmap \<Rightarrow> Face \<Rightarrow> int \<Rightarrow> 32 word \<Rightarrow> int \<times> FT_Bitmap" where
  "loads bm self g flags = (0, bm)"

definition size_ok :: "Face \<Rightarrow> int \<Rightarrow> int \<Rightarrow> uint \<Rightarrow> uint \<Rightarrow> int" where
  "size_ok self cw ch xd yd = 0"

definition scaled0 :: "int \<Rightarrow> uint \<Rightarrow> uint \<Rightarrow> int" where
  "scaled0 s mw w = (s * int (unat mw)) div int (unat w)"

section \<open>Placing a bitmap in a cell (freetype.c, lines 318-354)\<close>

text \<open>The two fields of FreeType's \<^verbatim>\<open>FT_Glyph_Metrics\<close> that are read (\<^verbatim>\<open>FT_Pos\<close>, a long).\<close>

record FT_Glyph_Metrics =
  horiBearingX :: int
  horiBearingY :: int

text \<open>
  The destination \<^verbatim>\<open>cell\<close> is the byte at each \<^verbatim>\<open>size_t\<close> offset from the pointer. Beside
  it the loops carry the list of the offsets they store to, in order; the list is not in the
  C code, it records where the assignment \<^verbatim>\<open>cell[dr * cell_width + dc] = val\<close> writes.
  \<^verbatim>\<open>val\<close> is a \<^verbatim>\<open>uint16_t\<close>, stored back into an \<^verbatim>\<open>unsigned char\<close>.

  The inner loop, over the columns of one row:
\<close>

function blit_row ::
  "(size_t \<Rightarrow> 8 word) \<times> size_t list \<Rightarrow> ProcessedBitmap \<Rightarrow> size_t \<Rightarrow> size_t \<Rightarrow> size_t \<Rightarrow> size_t \<Rightarrow> size_t \<Rightarrow>
   (size_t \<Rightarrow> 8 word) \<times> size_t list" where
  "blit_row (cell, stores) bm cell_width sr dr sc dc =
     (if sc < pb_width bm \<and> dc < cell_width then
        let val = (ucast (cell (dr * cell_width + dc)) :: 16 word);
            val' = (val + ucast (pb_buf bm (sr * pb_stride bm + sc))) mod 256
        in blit_row (cell(dr * cell_width + dc := ucast val'), stores @ [dr * cell_width + dc])
             bm cell_width sr dr (sc + 1) (dc + 1)
      else (cell, stores))"
  by pat_completeness auto
termination
proof (relation "measure (\<lambda>(cs, bm, cw, sr, dr, sc, dc). unat (pb_width bm) - unat sc)")
  show "wf (measure (\<lambda>(cs, bm, cw, sr, dr, sc, dc). unat (pb_width bm) - unat sc))" by simp
next
  fix cell :: "size_t \<Rightarrow> 8 word" and stores :: "size_t list" and bm :: ProcessedBitmap
    and cell_width sr dr sc dc :: size_t and val val' :: "16 word"
  assume "sc < pb_width bm \<and> dc < cell_width"
  then have "sc < pb_width bm" by simp
  then have "unat (pb_width bm) - unat (sc + 1) < unat (pb_width bm) - unat sc" by unat_arith
  then show "(((cell(dr * cell_width + dc := ucast val'), stores @ [dr * cell_width + dc]),
        bm, cell_width, sr, dr, sc + 1, dc + 1), ((cell, stores), bm, cell_width, sr, dr, sc, dc))
      \<in> measure (\<lambda>(cs, bm, cw, sr, dr, sc, dc). unat (pb_width bm) - unat sc)"
    by simp
qed

text \<open>The outer loop, over the rows:\<close>

function blit_rows ::
  "(size_t \<Rightarrow> 8 word) \<times> size_t list \<Rightarrow> ProcessedBitmap \<Rightarrow> size_t \<Rightarrow> size_t \<Rightarrow> size_t \<Rightarrow> size_t \<Rightarrow> size_t \<Rightarrow> size_t \<Rightarrow>
   (size_t \<Rightarrow> 8 word) \<times> size_t list" where
  "blit_rows cs bm cell_width cell_height sr dr src_start_column dest_start_column =
     (if sr < pb_rows bm \<and> dr < cell_height then
        blit_rows (blit_row cs bm cell_width sr dr src_start_column dest_start_column)
          bm cell_width cell_height (sr + 1) (dr + 1) src_start_column dest_start_column
      else cs)"
  by pat_completeness auto
termination
proof (relation "measure (\<lambda>(cs, bm, cw, ch, sr, dr, sc, dc). unat (pb_rows bm) - unat sr)")
  show "wf (measure (\<lambda>(cs, bm, cw, ch, sr, dr, sc, dc). unat (pb_rows bm) - unat sr))" by simp
next
  fix cs :: "(size_t \<Rightarrow> 8 word) \<times> size_t list" and bm :: ProcessedBitmap
    and cell_width cell_height sr dr src_start_column dest_start_column :: size_t
  assume "sr < pb_rows bm \<and> dr < cell_height"
  then have "sr < pb_rows bm" by simp
  then have "unat (pb_rows bm) - unat (sr + 1) < unat (pb_rows bm) - unat sr" by unat_arith
  then show "((blit_row cs bm cell_width sr dr src_start_column dest_start_column, bm, cell_width,
         cell_height, sr + 1, dr + 1, src_start_column, dest_start_column),
        (cs, bm, cell_width, cell_height, sr, dr, src_start_column, dest_start_column))
      \<in> measure (\<lambda>(cs, bm, cw, ch, sr, dr, sc, dc). unat (pb_rows bm) - unat sr)"
    by simp
qed

declare blit_row.simps [simp del] blit_rows.simps [simp del]

text \<open>
  The two offsets are computed in \<^verbatim>\<open>float\<close>:
  \<^verbatim>\<open>(ssize_t)(x_offset + (float)metrics->horiBearingX / 64.f)\<close> is the parameter
  \<open>offset x_offset (horiBearingX metrics)\<close>, a 64-bit pattern read as signed in
  \<^verbatim>\<open>xoff < 0\<close> and \<^verbatim>\<open>yoff > 0\<close> and converted to \<^verbatim>\<open>size_t\<close> elsewhere.
\<close>

definition place_bitmap_in_cell ::
  "('f \<Rightarrow> int \<Rightarrow> size_t) \<Rightarrow> (size_t \<Rightarrow> 8 word) \<Rightarrow> ProcessedBitmap \<Rightarrow> size_t \<Rightarrow> size_t \<Rightarrow> 'f \<Rightarrow> 'f \<Rightarrow>
   FT_Glyph_Metrics \<Rightarrow> size_t \<Rightarrow> (size_t \<Rightarrow> 8 word) \<times> size_t list" where
  "place_bitmap_in_cell offset cell bm cell_width cell_height x_offset y_offset metrics baseline =
     (let xoff = offset x_offset (horiBearingX metrics);
          src_start_column = (if xoff <s 0 then pb_start_x bm + (- xoff) else pb_start_x bm);
          dest_start_column = (if xoff <s 0 then 0 else xoff);
          dest_start_column =
            (if dest_start_column > 0 \<and> dest_start_column + pb_width bm > cell_width then
               let extra = dest_start_column + pb_width bm - cell_width in
               if extra > dest_start_column then 0 else dest_start_column - extra
             else dest_start_column);
          yoff = offset y_offset (horiBearingY metrics);
          src_start_row = 0;
          dest_start_row = (if 0 <s yoff \<and> yoff > baseline then 0 else baseline - yoff)
      in blit_rows (cell, []) bm cell_width cell_height src_start_row dest_start_row
           src_start_column dest_start_column)"

text \<open>
  An offset lies in the destination of \<open>cell_width * cell_height\<close> bytes, at row \<open>dr\<close> and
  column \<open>dc\<close>.
\<close>

definition in_cell :: "size_t \<Rightarrow> size_t \<Rightarrow> size_t \<Rightarrow> bool" where
  "in_cell cell_width cell_height i =
     (\<exists>dr dc. dr < cell_height \<and> dc < cell_width \<and> i = dr * cell_width + dc \<and>
        unat i < unat cell_width * unat cell_height)"

text \<open>Concrete inputs: a 2 by 2 glyph with bearings of one pixel, offsets in whole pixels.\<close>

definition to_offset :: "int \<Rightarrow> int \<Rightarrow> size_t" where
  "to_offset off bearing = word_of_int (off + bearing div 64)"

definition glyph_2x2 :: ProcessedBitmap where
  "glyph_2x2 = \<lparr>pb_buf = (\<lambda>_. 255), pb_start_x = 0, pb_width = 2, pb_stride = 2, pb_rows = 2\<rparr>"

definition metrics0 :: FT_Glyph_Metrics where
  "metrics0 = \<lparr>horiBearingX = 64, horiBearingY = 64\<rparr>"

section \<open>Sprite cache (fonts.c, lines 17-25, 41-47 and 82-141)\<close>

text \<open>
  A \<^verbatim>\<open>SpritePosition\<close> without its \<^verbatim>\<open>next\<close> pointer. A bucket of the cache is the head
  \<^verbatim>\<open>sprite_map[idx]\<close> together with the chain of nodes reached through \<^verbatim>\<open>next\<close>, in
  order; a \<^verbatim>\<open>next\<close> that is \<^verbatim>\<open>NULL\<close> is the end of the list.
\<close>

record SpritePosition =
  sp_filled :: bool
  sp_rendered :: bool
  sp_is_second :: bool
  sp_x :: sprite_index
  sp_y :: sprite_index
  sp_z :: sprite_index
  sp_glyph :: glyph_index
  sp_extra_glyphs :: "64 word"

text \<open>A zeroed \<^verbatim>\<open>SpritePosition\<close>: static storage, or the result of \<^verbatim>\<open>calloc\<close>.\<close>

definition sp_zero :: SpritePosition where
  "sp_zero = \<lparr>sp_filled = False, sp_rendered = False, sp_is_second = False,
              sp_x = 0, sp_y = 0, sp_z = 0, sp_glyph = 0, sp_extra_glyphs = 0\<rparr>"

type_synonym bucket = "SpritePosition \<times> SpritePosition list"

definition nodes :: "bucket \<Rightarrow> SpritePosition list" where
  "nodes b = fst b # snd b"

definition node_at :: "bucket \<Rightarrow> nat \<Rightarrow> SpritePosition" where
  "node_at b d = nodes b ! d"

definition node_set :: "bucket \<Rightarrow> nat \<Rightarrow> SpritePosition \<Rightarrow> bucket" where
  "node_set b d s = (case d of 0 \<Rightarrow> (s, snd b) | Suc k \<Rightarrow> (fst b, (snd b)[k := s]))"

text \<open>\<^verbatim>\<open>s->next = calloc(1, sizeof(SpritePosition))\<close> at the end of the chain.\<close>

definition link_node :: "bucket \<Rightarrow> bucket" where
  "link_node b = (fst b, snd b @ [sp_zero])"

text \<open>
  A \<^verbatim>\<open>Font\<close>. The face and the shaper font are opaque handles (\<open>None\<close> is \<^verbatim>\<open>NULL\<close>);
  \<^verbatim>\<open>sprite_map\<close> has 1024 heads, indexed from 0.
\<close>

record Font =
  f_face :: "nat option"
  f_hb_font :: "nat option"
  f_sprite_map :: "nat \<Rightarrow> bucket"
  f_bold :: bool
  f_italic :: bool

definition font_zero :: Font where
  "font_zero = \<lparr>f_face = None, f_hb_font = None, f_sprite_map = (\<lambda>_. (sp_zero, [])),
                f_bold = False, f_italic = False\<rparr>"

text \<open>The static fonts of fonts.c (lines 178-187); a \<^verbatim>\<open>Font *\<close> is one of these.\<close>

datatype font_ref =
  medium_font | bold_font | italic_font | bi_font | box_font | missing_font | blank_font
  | fallback_fonts nat | symbol_map_fonts nat

text \<open>The global state of fonts.c that the functions below read or write.\<close>

record fonts_state =
  sprite_tracker :: GPUSpriteTracker
  fonts :: "font_ref \<Rightarrow> Font"
  symbol_map_fonts_count :: nat
  g_cell_width :: uint
  g_cell_height :: uint
  g_baseline :: uint
  g_underline_position :: uint
  g_underline_thickness :: uint

definition fonts_state_init :: fonts_state where
  "fonts_state_init =
     \<lparr>sprite_tracker = sprite_tracker_init, fonts = (\<lambda>_. font_zero), symbol_map_fonts_count = 0,
      g_cell_width = 0, g_cell_height = 0, g_baseline = 0, g_underline_position = 0,
      g_underline_thickness = 0\<rparr>"

definition sp_matches :: "SpritePosition \<Rightarrow> glyph_index \<Rightarrow> 64 word \<Rightarrow> bool \<Rightarrow> bool" where
  "sp_matches s glyph extra_glyphs is_second =
     (sp_glyph s = glyph \<and> sp_extra_glyphs s = extra_glyphs \<and> sp_is_second s = is_second)"

text \<open>
  The \<^verbatim>\<open>while(true)\<close> loop of \<^verbatim>\<open>sprite_position_for\<close>, walking the chain from depth \<open>d\<close>:
  it ends at a filled node with the key (\<open>Hit\<close>), at the first node that is not filled
  (\<open>Claim\<close>), or past the last node, where a node has to be allocated (\<open>Grow\<close>).
\<close>

datatype walk = Hit nat | Claim nat | Grow nat

fun chain_walk :: "SpritePosition list \<Rightarrow> glyph_index \<Rightarrow> 64 word \<Rightarrow> bool \<Rightarrow> nat \<Rightarrow> walk" where
  "chain_walk [] glyph extra_glyphs is_second d = Grow d"
| "chain_walk (s # ns) glyph extra_glyphs is_second d =
     (if sp_filled s then
        (if sp_glyph s = glyph \<and> sp_extra_glyphs s = extra_glyphs \<and> sp_is_second s = is_second
         then Hit d
         else chain_walk ns glyph extra_glyphs is_second (Suc d))
      else Claim d)"

text \<open>
  Lines 100-107: fill the node at depth \<open>d\<close> of bucket \<open>b\<close> with the key and the tracker's
  cursor (truncated to \<^verbatim>\<open>sprite_index\<close>), advance the tracker, return the node.
  A pointer to a node is the pair of its bucket index and its depth.
\<close>

definition claim_node ::
  "fonts_state \<Rightarrow> font_ref \<Rightarrow> nat \<Rightarrow> bucket \<Rightarrow> nat \<Rightarrow> glyph_index \<Rightarrow> 64 word \<Rightarrow> bool \<Rightarrow> int \<Rightarrow>
   (nat \<times> nat) option \<times> int \<times> fonts_state" where
  "claim_node st font idx b d glyph extra_glyphs is_second error =
     (let t = sprite_tracker st;
          s = (node_at b d)\<lparr>sp_glyph := glyph, sp_extra_glyphs := extra_glyphs,
                 sp_is_second := is_second, sp_filled := True, sp_rendered := False,
                 sp_x := ucast (t_x t), sp_y := ucast (t_y t), sp_z := ucast (t_z t)\<rparr>;
          (t', error') = do_increment t error;
          f = fonts st font
      in (Some (idx, d), error',
          st\<lparr>sprite_tracker := t',
             fonts := (fonts st)(font := f\<lparr>f_sprite_map := (f_sprite_map f)(idx := node_set b d s)\<rparr>)\<rparr>))"

text \<open>
  \<^verbatim>\<open>sprite_position_for\<close>. \<open>calloc_ok\<close> tells whether the one \<^verbatim>\<open>calloc\<close> the call may make
  succeeds; \<open>error\<close> is the value at \<^verbatim>\<open>*error\<close> on entry. The result is the returned
  pointer (\<open>None\<close> for \<^verbatim>\<open>NULL\<close>), the value at \<^verbatim>\<open>*error\<close> on return and the new state.
\<close>

definition sprite_position_for ::
  "fonts_state \<Rightarrow> font_ref \<Rightarrow> glyph_index \<Rightarrow> 64 word \<Rightarrow> bool \<Rightarrow> bool \<Rightarrow> int \<Rightarrow>
   (nat \<times> nat) option \<times> int \<times> fonts_state" where
  "sprite_position_for st font glyph extra_glyphs is_second calloc_ok error =
     (let idx = unat (glyph AND 0x3ff);
          b = f_sprite_map (fonts st font) idx;
          s = fst b
      in if sp_glyph s = glyph \<and> sp_filled s \<and> sp_extra_glyphs s = extra_glyphs \<and>
            sp_is_second s = is_second
         then (Some (idx, 0), error, st)
         else (case chain_walk (nodes b) glyph extra_glyphs is_second 0 of
                 Hit d \<Rightarrow> (Some (idx, d), error, st)
               | Claim d \<Rightarrow> claim_node st font idx b d glyph extra_glyphs is_second error
               | Grow d \<Rightarrow>
                   if calloc_ok
                   then claim_node st font idx (link_node b) d glyph extra_glyphs is_second error
                   else (None, 1, st)))"

text \<open>The node a returned pointer refers to, and its atlas coordinates.\<close>

definition deref :: "fonts_state \<Rightarrow> font_ref \<Rightarrow> nat \<times> nat \<Rightarrow> SpritePosition" where
  "deref st font p = node_at (f_sprite_map (fonts st font) (fst p)) (snd p)"

definition xyz :: "SpritePosition \<Rightarrow> sprite_index \<times> sprite_index \<times> sprite_index" where
  "xyz s = (sp_x s, sp_y s, sp_z s)"

text \<open>\<^verbatim>\<open>clear_sprite_map\<close>: the macro \<^verbatim>\<open>CLEAR\<close> on every head and every chained node.\<close>

definition CLEAR :: "SpritePosition \<Rightarrow> SpritePosition" where
  "CLEAR s = s\<lparr>sp_filled := False, sp_rendered := False, sp_glyph := 0, sp_extra_glyphs := 0,
               sp_x := 0, sp_y := 0, sp_z := 0, sp_is_second := False\<rparr>"

definition clear_sprite_map :: "Font \<Rightarrow> Font" where
  "clear_sprite_map font =
     font\<lparr>f_sprite_map := (\<lambda>i. if i < 1024
                                then (CLEAR (fst (f_sprite_map font i)), map CLEAR (snd (f_sprite_map font i)))
                                else f_sprite_map font i)\<rparr>"

text \<open>\<^verbatim>\<open>sprite_map_set_error\<close> raises one of three Python exceptions.\<close>

datatype py_error =
  MemoryError | Out_of_texture_space | Unknown_sprite_error | Set_size_failed
  | No_cell_width | Line_height_too_small | Line_height_too_large | Out_of_bounds_read
  | Division_by_zero

definition sprite_map_set_error :: "int \<Rightarrow> py_error" where
  "sprite_map_set_error error =
     (if error = 1 then MemoryError
      else if error = 2 then Out_of_texture_space
      else Unknown_sprite_error)"

text \<open>
  \<^verbatim>\<open>test_sprite_position_for\<close> (lines 458-467), the Python entry point: its local
  \<^verbatim>\<open>int error\<close> is not initialised, so its initial value is a parameter.
\<close>

definition test_sprite_position_for ::
  "fonts_state \<Rightarrow> glyph_index \<Rightarrow> 64 word \<Rightarrow> bool \<Rightarrow> int \<Rightarrow>
   (py_error + sprite_index \<times> sprite_index \<times> sprite_index) \<times> fonts_state" where
  "test_sprite_position_for st glyph extra_glyphs calloc_ok error0 =
     (case sprite_position_for st box_font glyph extra_glyphs False calloc_ok error0 of
        (None, error, st') \<Rightarrow> (Inl (sprite_map_set_error error), st')
      | (Some pos, error, st') \<Rightarrow> (Inr (xyz (deref st' box_font pos)), st'))"

text \<open>Calling it for each glyph of a list in turn, collecting the results.\<close>

fun test_positions ::
  "fonts_state \<Rightarrow> glyph_index list \<Rightarrow>
   (py_error + sprite_index \<times> sprite_index \<times> sprite_index) list \<times> fonts_state" where
  "test_positions st [] = ([], st)"
| "test_positions st (g # gs) =
     (let (r, st') = test_sprite_position_for st g 0 True 0;
          (rs, st'') = test_positions st' gs
      in (r # rs, st''))"

section \<open>Cells and lines\<close>

text \<open>
  \<^verbatim>\<open>Cell\<close> and \<^verbatim>\<open>Line\<close> are declared in a header of the repository; these are the fields
  that fonts.c uses. \<^verbatim>\<open>char_type\<close> is taken as 32 bits and \<^verbatim>\<open>attrs_type\<close> as 16 bits wide
  (only the character ranges below and the two low bits of the attributes matter);
  \<^verbatim>\<open>index_type\<close> is an \<^verbatim>\<open>unsigned int\<close>. A line is well formed when \<open>l_xnum\<close> is the number
  of its cells.
\<close>

record Cell =
  c_ch :: "32 word"
  c_cc :: "32 word"
  c_attrs :: "16 word"
  c_sprite_x :: sprite_index
  c_sprite_y :: sprite_index
  c_sprite_z :: sprite_index

record Line =
  l_cells :: "Cell list"
  l_xnum :: uint

text \<open>
  Modelled from the spec: the macro \<^verbatim>\<open>WIDTH_MASK\<close> is defined in a header that is not among
  the sources. The specification has the width of a cell, one of 0, 1 and 2, "in low bits
  per \<^verbatim>\<open>WIDTH_MASK\<close>" of the attributes: two bits.
\<close>

definition WIDTH_MASK :: "16 word" where
  "WIDTH_MASK = 3"

definition MISSING_GLYPH :: sprite_index where
  "MISSING_GLYPH = 4"

definition set_sprite :: "Cell \<Rightarrow> sprite_index \<Rightarrow> sprite_index \<Rightarrow> sprite_index \<Rightarrow> Cell" where
  "set_sprite cell x y z = cell\<lparr>c_sprite_x := x, c_sprite_y := y, c_sprite_z := z\<rparr>"

text \<open>
  \<^verbatim>\<open>font_for_cell\<close> (lines 277-311): the two literal cases of the \<^verbatim>\<open>switch\<close>; the default
  case (symbol maps, the styled fonts, the fallback fonts) is the parameter \<open>styled\<close>.
\<close>

definition font_for_cell :: "(Cell \<Rightarrow> font_ref) \<Rightarrow> Cell \<Rightarrow> font_ref" where
  "font_for_cell styled cell =
     (if c_ch cell = 0 then blank_font
      else if (0x2500 \<le> c_ch cell \<and> c_ch cell \<le> 0x2570) \<or> (0x2574 \<le> c_ch cell \<and> c_ch cell \<le> 0x257f)
              \<or> c_ch cell = 0xe0b0 \<or> c_ch cell = 0xe0b2 then box_font
      else styled cell)"

definition box_glyph_id :: "32 word \<Rightarrow> glyph_index" where
  "box_glyph_id ch =
     (if 0x2500 \<le> ch \<and> ch \<le> 0x257f then ucast (ch - 0x2500)
      else if ch = 0xe0b0 then 0x80
      else if ch = 0xe0b2 then 0x81
      else 0x82)"

text \<open>
  \<^verbatim>\<open>render_box_cell\<close> (lines 336-353). \<open>paint_ok\<close> tells whether the external box drawing
  function returns a buffer. The result is the cell, the new state and the atlas position
  that a sprite was sent to, if one was sent.
\<close>

definition render_box_cell ::
  "fonts_state \<Rightarrow> Cell \<Rightarrow> bool \<Rightarrow> bool \<Rightarrow>
   Cell \<times> fonts_state \<times> (sprite_index \<times> sprite_index \<times> sprite_index) option" where
  "render_box_cell st cell calloc_ok paint_ok =
     (let glyph = box_glyph_id (c_ch cell) in
      case sprite_position_for st box_font glyph 0 False calloc_ok 0 of
        (None, error, st') \<Rightarrow> (set_sprite cell 0 0 0, st', None)
      | (Some p, error, st') \<Rightarrow>
          let sp = deref st' box_font p;
              cell' = set_sprite cell (sp_x sp) (sp_y sp) (sp_z sp)
          in if sp_rendered sp then (cell', st', None)
             else
               let f = fonts st' box_font;
                   b = f_sprite_map f (fst p);
                   st'' = st'\<lparr>fonts := (fonts st')(box_font :=
                            f\<lparr>f_sprite_map := (f_sprite_map f)(fst p := node_set b (snd p) (sp\<lparr>sp_rendered := True\<rparr>))\<rparr>)\<rparr>
               in if paint_ok then (cell', st'', Some (xyz sp)) else (cell', st'', None))"

text \<open>
  \<^verbatim>\<open>render_line\<close> (lines 370-386). What the function does is to call
  \<^verbatim>\<open>font_for_cell\<close> and \<^verbatim>\<open>render_run\<close>; the model returns these calls in order. For
  \<^verbatim>\<open>render_run(first_cell, num_cells, font)\<close> the pointer \<^verbatim>\<open>first_cell\<close> is the index of
  the cell it points to.
\<close>

datatype render_call = Font_for_cell nat | Render_run nat nat font_ref

function render_line_loop ::
  "(Cell \<Rightarrow> font_ref) \<Rightarrow> Line \<Rightarrow> font_ref option \<Rightarrow> uint \<Rightarrow> 16 word \<Rightarrow> uint \<Rightarrow> render_call list \<Rightarrow>
   font_ref option \<times> uint \<times> uint \<times> render_call list" where
  "render_line_loop styled line run_font first_cell_in_run prev_width i calls =
     (if i < l_xnum line then
        if prev_width = 2
        then render_line_loop styled line run_font first_cell_in_run prev_width (i + 1) calls
        else
          let cell = l_cells line ! unat i;
              cell_font = font_for_cell styled cell;
              calls1 = calls @ [Font_for_cell (unat i)];
              prev_width1 = c_attrs cell AND WIDTH_MASK
          in if Some cell_font = run_font
             then render_line_loop styled line run_font first_cell_in_run prev_width1 (i + 1) calls1
             else
               let calls2 =
                     (case run_font of
                        Some rf \<Rightarrow> if i > first_cell_in_run
                                   then calls1 @ [Render_run (unat i) (unat (i - first_cell_in_run)) rf]
                                   else calls1
                      | None \<Rightarrow> calls1)
               in render_line_loop styled line (Some cell_font) i prev_width1 (i + 1) calls2
      else (run_font, first_cell_in_run, i, calls))"
  by pat_completeness auto
termination
  apply (relation "measure (\<lambda>(styled, line, rf, first, pw, i, calls). unat (l_xnum line) - unat i)")
     apply simp_all
    apply unat_arith+
  done

declare render_line_loop.simps [simp del]

definition render_line :: "(Cell \<Rightarrow> font_ref) \<Rightarrow> Line \<Rightarrow> render_call list" where
  "render_line styled line =
     (let (run_font, first_cell_in_run, i, calls) = render_line_loop styled line None 0 0 0 []
      in case run_font of
           Some rf \<Rightarrow> if i > first_cell_in_run
                      then calls @ [Render_run (unat first_cell_in_run) (unat (i - first_cell_in_run)) rf]
                      else calls
         | None \<Rightarrow> calls)"

section \<open>Cell metrics (fonts.c, lines 204-226)\<close>

text \<open>
  What \<^verbatim>\<open>update_cell_metrics\<close> takes from outside fonts.c: \<^verbatim>\<open>set_size_for_face\<close> for the
  requested size (true on success), \<^verbatim>\<open>cell_metrics\<close> of a face (cell width, cell height,
  baseline, underline position, underline thickness), the two line height options, and
  whether \<^verbatim>\<open>malloc\<close> of the canvas succeeds. \<^verbatim>\<open>adjust_line_height_px\<close> is added to an
  \<^verbatim>\<open>unsigned int\<close>, so it is given as its 32-bit pattern; \<^verbatim>\<open>adjust_line_height_frac\<close> is a
  \<^verbatim>\<open>float\<close>: \<open>None\<close> when it is zero, otherwise the function that multiplies a cell height
  by it.
\<close>

record metrics_env =
  set_size_for_face :: "nat \<Rightarrow> bool"
  cell_metrics :: "nat option \<Rightarrow> uint \<times> uint \<times> uint \<times> uint \<times> uint"
  adjust_line_height_px :: uint
  adjust_line_height_frac :: "(uint \<Rightarrow> uint) option"
  canvas_malloc_ok :: bool

text \<open>
  The macro \<^verbatim>\<open>CALL(f)\<close>: fonts without a face are passed over; the result is false where
  the macro returns \<^verbatim>\<open>NULL\<close> from \<^verbatim>\<open>update_cell_metrics\<close>.
\<close>

definition CALL :: "metrics_env \<Rightarrow> fonts_state \<Rightarrow> font_ref \<Rightarrow> bool \<times> fonts_state" where
  "CALL env st f =
     (case f_face (fonts st f) of
        None \<Rightarrow> (True, st)
      | Some face \<Rightarrow>
          if \<not> set_size_for_face env face then (False, st)
          else (True, st\<lparr>fonts := (fonts st)(f := clear_sprite_map (fonts st f))\<rparr>))"

fun CALL_all :: "metrics_env \<Rightarrow> fonts_state \<Rightarrow> font_ref list \<Rightarrow> bool \<times> fonts_state" where
  "CALL_all env st [] = (True, st)"
| "CALL_all env st (f # fs) =
     (case CALL env st f of
        (False, st') \<Rightarrow> (False, st')
      | (True, st') \<Rightarrow> CALL_all env st' fs)"

text \<open>
  The loop over \<^verbatim>\<open>fallback_fonts\<close>, an array of 256 fonts, runs until a font without a
  face; reading past the array is the error \<open>Out_of_bounds_read\<close>.
\<close>

function CALL_fallback :: "metrics_env \<Rightarrow> fonts_state \<Rightarrow> nat \<Rightarrow> py_error option \<times> fonts_state" where
  "CALL_fallback env st i =
     (if i \<ge> 256 then (Some Out_of_bounds_read, st)
      else if f_face (fonts st (fallback_fonts i)) = None then (None, st)
      else (case CALL env st (fallback_fonts i) of
              (False, st') \<Rightarrow> (Some Set_size_failed, st')
            | (True, st') \<Rightarrow> CALL_fallback env st' (i + 1)))"
  by pat_completeness auto
termination
  by (relation "measure (\<lambda>(env, st, i). 256 - i)") auto

declare CALL_fallback.simps [simp del]

definition update_cell_metrics ::
  "metrics_env \<Rightarrow> fonts_state \<Rightarrow> (py_error + uint \<times> uint \<times> uint \<times> uint \<times> uint) \<times> fonts_state" where
  "update_cell_metrics env st =
     (case CALL_all env st [medium_font, bold_font, italic_font, bi_font] of
        (False, st1) \<Rightarrow> (Inl Set_size_failed, st1)
      | (True, st1) \<Rightarrow>
     (case CALL_fallback env st1 0 of
        (Some e, st2) \<Rightarrow> (Inl e, st2)
      | (None, st2) \<Rightarrow>
     (case CALL_all env st2 (map symbol_map_fonts [0..<symbol_map_fonts_count st2]) of
        (False, st3) \<Rightarrow> (Inl Set_size_failed, st3)
      | (True, st3) \<Rightarrow>
          let (cw, ch, bl, up, ut) = cell_metrics env (f_face (fonts st3 medium_font));
              st4 = st3\<lparr>g_cell_width := cw, g_cell_height := ch, g_baseline := bl,
                        g_underline_position := up, g_underline_thickness := ut\<rparr>
          in if cw = 0 then (Inl No_cell_width, st4)
             else
               let ch1 = (if adjust_line_height_px env \<noteq> 0 then ch + adjust_line_height_px env else ch);
                   ch2 = (case adjust_line_height_frac env of None \<Rightarrow> ch1 | Some mul \<Rightarrow> mul ch1);
                   st5 = st4\<lparr>g_cell_height := ch2\<rparr>
               in if ch2 < 4 then (Inl Line_height_too_small, st5)
                  else if ch2 > 1000 then (Inl Line_height_too_large, st5)
                  else
                    let up1 = min (ch2 - 1) up;
                        st6 = st5\<lparr>g_underline_position := up1\<rparr>
                    in (case sprite_tracker_set_layout (sprite_tracker st6) cw ch2 of
                          None \<Rightarrow> (Inl Division_by_zero, st6)
                        | Some t \<Rightarrow>
                            let st7 = st6\<lparr>sprite_tracker := t\<rparr>
                            in if \<not> canvas_malloc_ok env then (Inl MemoryError, st7)
                               else (Inr (cw, ch2, bl, up1, ut), st7)))))"

text \<open>
  Concrete states: the atlas of 16 by 16 pixels and 2 layers with cells of 8 by 8 pixels,
  no font configured; the same after the box glyph 0 has got a sprite and the medium font
  has got a face; and an environment in which every call succeeds and the medium face has
  cells of 8 by 16 pixels.
\<close>

definition state_16_2 :: fonts_state where
  "state_16_2 = fonts_state_init\<lparr>
      sprite_tracker := the (sprite_tracker_set_layout tracker_16_2 8 8),
      g_cell_width := 8, g_cell_height := 8\<rparr>"

definition state_box :: fonts_state where
  "state_box =
     (let st = snd (test_sprite_position_for state_16_2 0 0 True 0)
      in st\<lparr>fonts := (fonts st)(medium_font := (fonts st medium_font)\<lparr>f_face := Some 1\<rparr>)\<rparr>)"

definition env_8x16 :: metrics_env where
  "env_8x16 = \<lparr>set_size_for_face = (\<lambda>_. True), cell_metrics = (\<lambda>_. (8, 16, 12, 13, 1)),
               adjust_line_height_px = 0, adjust_line_height_frac = None, canvas_malloc_ok = True\<rparr>"

text \<open>
  Concrete lines: a wide character, its right half and a narrow character; and a blank cell
  followed by a box drawing character. Every other character is in the medium font.
\<close>

definition cell_of :: "32 word \<Rightarrow> 16 word \<Rightarrow> Cell" where
  "cell_of ch attrs = \<lparr>c_ch = ch, c_cc = 0, c_attrs = attrs, c_sprite_x = 0, c_sprite_y = 0, c_sprite_z = 0\<rparr>"

definition line_wide :: Line where
  "line_wide = \<lparr>l_cells = [cell_of 0x4E2D 2, cell_of 0 0, cell_of 0x62 1], l_xnum = 3\<rparr>"

definition line_blank_box :: Line where
  "line_blank_box = \<lparr>l_cells = [cell_of 0 1, cell_of 0x2500 1], l_xnum = 2\<rparr>"

definition all_medium :: "Cell \<Rightarrow> font_ref" where
  "all_medium cell = medium_font"

section \<open>Using a sprite cache over time\<close>

text \<open>
  The calls that touch the sprite caches while they live: \<^verbatim>\<open>sprite_position_for\<close> on any
  font with any key, and \<^verbatim>\<open>render_box_cell\<close>, which also marks the node as rendered.
\<close>

datatype cache_call =
  Position_for font_ref glyph_index "64 word" bool bool int
  | Render_box Cell bool bool

fun run_call :: "fonts_state \<Rightarrow> cache_call \<Rightarrow> fonts_state" where
  "run_call st (Position_for font glyph extra_glyphs is_second calloc_ok error) =
     snd (snd (sprite_position_for st font glyph extra_glyphs is_second calloc_ok error))"
| "run_call st (Render_box cell calloc_ok paint_ok) =
     fst (snd (render_box_cell st cell calloc_ok paint_ok))"

definition run_calls :: "fonts_state \<Rightarrow> cache_call list \<Rightarrow> fonts_state" where
  "run_calls st calls = foldl run_call st calls"

text \<open>
  A node is kept by a later node when, once filled, it stays filled with the same key and
  the same coordinates; a bucket extends another when it keeps each of its nodes, and a
  state extends another when each bucket of each font does.
\<close>

definition keeps :: "SpritePosition \<Rightarrow> SpritePosition \<Rightarrow> bool" where
  "keeps s s' = (sp_filled s \<longrightarrow>
     sp_filled s' \<and> sp_glyph s' = sp_glyph s \<and> sp_extra_glyphs s' = sp_extra_glyphs s \<and>
     sp_is_second s' = sp_is_second s \<and> xyz s' = xyz s)"

definition bucket_ext :: "bucket \<Rightarrow> bucket \<Rightarrow> bool" where
  "bucket_ext b b' = (length (nodes b) \<le> length (nodes b') \<and>
     (\<forall>j<length (nodes b). keeps (nodes b ! j) (nodes b' ! j)))"

definition state_ext :: "fonts_state \<Rightarrow> fonts_state \<Rightarrow> bool" where
  "state_ext st st' = (\<forall>f i. bucket_ext (f_sprite_map (fonts st f) i) (f_sprite_map (fonts st' f) i))"

text \<open>
  Concrete use: glyph 5 of the box font gets a sprite, then glyph 1029, which falls into
  the same bucket, and a box drawing cell are looked up.
\<close>

definition state_glyph5 :: fonts_state where
  "state_glyph5 = snd (snd (sprite_position_for state_16_2 box_font 5 0 False True 0))"

definition calls_after :: "cache_call list" where
  "calls_after = [Position_for box_font 1029 0 False True 0, Render_box (cell_of 0x2500 1) True True]"

section \<open>Conversions between the integer types\<close>

lemma unat_ucast_uint_size_t: "unat ((ucast (a::uint))::size_t) = unat a"
proof -
  have "unat a < 2 ^ 32" using unsigned_less[of a] by simp
  then have "unat a < 2 ^ 64" by simp
  then show ?thesis by (simp add: unsigned_ucast_eq take_bit_nat_eq_self)
qed

lemma unat_ucast_size_t_uint: "unat (a::size_t) < 2 ^ 32 \<Longrightarrow> unat ((ucast a)::uint) = unat a"
  by (simp add: unsigned_ucast_eq take_bit_nat_eq_self)

section \<open>The tracker's advance\<close>

lemma ynum_store:
  "unat (ucast (min (ucast (max (a::uint) b)) (m::size_t)) :: uint) = min (max (unat a) (unat b)) (unat m)"
proof -
  have mx: "unat (max a b) = max (unat a) (unat b)"
    by (simp add: max_def word_le_nat_alt)
  have mn: "unat (min (ucast (max a b)) m) = min (max (unat a) (unat b)) (unat m)"
    by (simp add: min_def word_le_nat_alt unat_ucast_uint_size_t mx)
  have "unat (max a b) < 2 ^ 32" using unsigned_less[of "max a b"] by simp
  then have "min (unat (max a b)) (unat m) < 2 ^ 32" by (rule min.strict_coboundedI1)
  then have "unat (min (ucast (max a b)) m) < 2 ^ 32" unfolding mn mx .
  then show ?thesis using mn by (simp add: unat_ucast_size_t_uint)
qed

lemma x_step:
  assumes "(a::uint) < b"
  shows "unat (a + 1) = unat a + 1" and "(b \<le> a + 1) = (unat a + 1 = unat b)"
proof -
  have "unat a < unat b" using assms by (simp add: word_less_nat_alt)
  moreover have "unat b < 2 ^ 32" using unsigned_less[of b] by simp
  ultimately have "unat a + unat (1::uint) < 2 ^ LENGTH(32)" by simp
  then have "unat (a + 1) = unat a + unat (1::uint)" by (simp only: unat_add_lem)
  then show 1: "unat (a + 1) = unat a + 1" by simp
  show "(b \<le> a + 1) = (unat a + 1 = unat b)"
    using \<open>unat a < unat b\<close> by (auto simp: word_le_nat_alt 1)
qed

lemma y_step:
  assumes "(ucast (a::uint) :: size_t) < m"
  shows "(m \<le> ucast (a + 1)) = (unat (a + 1) = unat m)"
proof -
  have lt: "unat a < unat m" using assms by (simp add: word_less_nat_alt unat_ucast_uint_size_t)
  have "unat (a + 1) \<le> unat a + 1"
    by (simp add: unat_word_ariths)
  with lt have "unat (a + 1) \<le> unat m" by simp
  then show ?thesis by (auto simp: word_le_nat_alt unat_ucast_uint_size_t)
qed

lemma limit_unat:
  "(min (of_nat UINT16_MAX) (l::size_t) \<le> ucast (c::uint)) = (min 65535 (unat l) \<le> unat c)"
  by (simp add: UINT16_MAX_def min_def word_le_nat_alt unat_ucast_uint_size_t)

text \<open>
  C2, as the code has it. From a tracker state with \<open>x < xnum\<close> and \<open>y < max_y\<close>,
  \<open>do_increment\<close> leaves \<open>xnum\<close>, \<open>max_y\<close> and the limits alone and
  \<^item> when \<open>x + 1 < xnum\<close>: only increments \<open>x\<close>;
  \<^item> when \<open>x + 1 = xnum\<close>: resets \<open>x\<close> to 0, increments \<open>y\<close> (32-bit addition) and sets
    \<open>ynum\<close> to \<open>min (max ynum (y + 1)) max_y\<close> for the incremented \<open>y\<close>;
  \<^item> when moreover the incremented \<open>y\<close> equals \<open>max_y\<close>: resets \<open>y\<close> to 0, increments
    \<open>z\<close>, and sets the error to 2 (atlas full) exactly when the incremented \<open>z\<close> is at least
    \<open>min 65535 max_array_len\<close>; in every other case the error is left as it was.
  The bound is \<^verbatim>\<open>UINT16_MAX\<close> = 65535, not 65536.
\<close>

theorem do_increment_advances:
  assumes xlt: "t_x t < t_xnum t" and ylt: "ucast (t_y t) < max_y t"
    and res: "do_increment t e = (t', e')"
  shows "t_xnum t' = t_xnum t \<and> max_y t' = max_y t \<and> max_array_len t' = max_array_len t \<and>
      max_texture_size t' = max_texture_size t \<and>
      (unat (t_x t) + 1 < unat (t_xnum t) \<longrightarrow>
         unat (t_x t') = unat (t_x t) + 1 \<and> t_y t' = t_y t \<and> t_z t' = t_z t \<and> t_ynum t' = t_ynum t \<and> e' = e) \<and>
      (unat (t_x t) + 1 = unat (t_xnum t) \<longrightarrow>
         t_x t' = 0 \<and>
         unat (t_ynum t') = min (max (unat (t_ynum t)) (unat (t_y t + 1 + 1))) (unat (max_y t)) \<and>
         (unat (t_y t + 1) \<noteq> unat (max_y t) \<longrightarrow> t_y t' = t_y t + 1 \<and> t_z t' = t_z t \<and> e' = e) \<and>
         (unat (t_y t + 1) = unat (max_y t) \<longrightarrow> t_y t' = 0 \<and> t_z t' = t_z t + 1 \<and>
            e' = (if min 65535 (unat (max_array_len t)) \<le> unat (t_z t + 1) then 2 else e)))"
proof (cases "unat (t_x t) + 1 = unat (t_xnum t)")
  case False
  with x_step[OF xlt] res show ?thesis
    by (auto simp: do_increment_def Let_def)
next
  case True
  note wrapx = this
  show ?thesis
  proof (cases "unat (t_y t + 1) = unat (max_y t)")
    case False
    with wrapx x_step[OF xlt] y_step[OF ylt] res show ?thesis
      by (auto simp: do_increment_def Let_def ynum_store)
  next
    case True
    with wrapx x_step[OF xlt] y_step[OF ylt] res show ?thesis
      by (auto simp: do_increment_def Let_def ynum_store limit_unat)
  qed
qed

theorem do_increment_advances_witness:
  "t_x tracker_last_slot < t_xnum tracker_last_slot \<and>
   ucast (t_y tracker_last_slot) < max_y tracker_last_slot \<and>
   unat (t_x tracker_last_slot) + 1 = unat (t_xnum tracker_last_slot) \<and>
   unat (t_y tracker_last_slot + 1) = unat (max_y tracker_last_slot) \<and>
   t_x (fst (do_increment tracker_last_slot 0)) = 0 \<and>
   t_y (fst (do_increment tracker_last_slot 0)) = 0 \<and>
   t_z (fst (do_increment tracker_last_slot 0)) = 2 \<and>
   unat (t_ynum (fst (do_increment tracker_last_slot 0))) = 2 \<and>
   snd (do_increment tracker_last_slot 0) = 2"
  using do_increment_advances [of tracker_last_slot 0
      "fst (do_increment tracker_last_slot 0)" "snd (do_increment tracker_last_slot 0)"]
  by (simp add: tracker_last_slot_def)

text \<open>
  C2 as the specification words it fails: with \<open>max_array_len = 100000\<close> and \<open>z = 65534\<close> the
  advance into layer 65535 signals atlas full, although \<open>65535 < min 65536 max_array_len\<close>.
\<close>

theorem do_increment_limit_counterexample:
  "t_x tracker_z65534 < t_xnum tracker_z65534 \<and>
   ucast (t_y tracker_z65534) < max_y tracker_z65534 \<and>
   snd (do_increment tracker_z65534 0) = 2 \<and>
   t_z (fst (do_increment tracker_z65534 0)) = 65535 \<and>
   \<not> (min 65536 (unat (max_array_len (fst (do_increment tracker_z65534 0))))
        \<le> unat (t_z (fst (do_increment tracker_z65534 0))))"
  by (simp add: tracker_z65534_def do_increment_def Let_def UINT16_MAX_def)

section \<open>The atlas layout\<close>

text \<open>
  C7, as the code has it. For positive \<open>w\<close> and \<open>h\<close>, \<open>sprite_tracker_set_layout\<close> returns a
  tracker with \<open>xnum\<close> and \<open>max_y\<close> at least 1, with \<open>xnum * w \<le> max_texture_size\<close> whenever
  \<open>w \<le> max_texture_size\<close>, and with \<open>max_y * h \<le> max_texture_size\<close> whenever
  \<open>h \<le> max_texture_size\<close>. (A cell larger than the texture still gets one column or row.)
\<close>

theorem set_layout_coherent:
  assumes "0 < w" "0 < h"
  shows "\<exists>t'. sprite_tracker_set_layout t w h = Some t' \<and>
      max_texture_size t' = max_texture_size t \<and>
      1 \<le> unat (t_xnum t') \<and> 1 \<le> unat (max_y t') \<and>
      (unat w \<le> unat (max_texture_size t) \<longrightarrow> unat (t_xnum t') * unat w \<le> unat (max_texture_size t)) \<and>
      (unat h \<le> unat (max_texture_size t) \<longrightarrow> unat (max_y t') * unat h \<le> unat (max_texture_size t))"
proof -
  define m where "m = unat (max_texture_size t)"
  have wpos: "0 < unat w" and hpos: "0 < unat h" using assms by (simp_all add: unat_gt_0)
  have q: "\<And>c::uint. unat (min (max 1 (max_texture_size t div ucast c)) (of_nat UINT16_MAX))
         = min (max 1 (m div unat c)) 65535"
    by (simp add: m_def UINT16_MAX_def min_def max_def word_le_nat_alt word_less_nat_alt unat_div unat_ucast_uint_size_t)
  have qx: "\<And>c::uint. unat ((ucast (min (max 1 (max_texture_size t div ucast c)) (of_nat UINT16_MAX :: size_t)))::uint)
         = min (max 1 (m div unat c)) 65535"
  proof -
    fix c :: uint
    have "unat (min (max 1 (max_texture_size t div ucast c)) (of_nat UINT16_MAX :: size_t)) < 2 ^ 32"
      unfolding q by simp
    then show "unat ((ucast (min (max 1 (max_texture_size t div ucast c)) (of_nat UINT16_MAX :: size_t)))::uint)
         = min (max 1 (m div unat c)) 65535"
      unfolding q[symmetric] by (rule unat_ucast_size_t_uint)
  qed
  have ar: "\<And>c. 0 < c \<Longrightarrow> c \<le> m \<Longrightarrow> min (max 1 (m div c)) 65535 * c \<le> m"
  proof -
    fix c :: nat assume c: "0 < c" "c \<le> m"
    then have "0 < m div c" by (simp add: div_greater_zero_iff)
    then have "1 \<le> m div c" by simp
    then have "min (max 1 (m div c)) 65535 \<le> m div c" by simp
    then have "min (max 1 (m div c)) 65535 * c \<le> (m div c) * c" by (rule mult_le_mono1)
    also have "\<dots> \<le> m" by simp
    finally show "min (max 1 (m div c)) 65535 * c \<le> m" .
  qed
  have ne: "w \<noteq> 0" "h \<noteq> 0" using wpos hpos by (simp_all add: unat_gt_0)
  show ?thesis
    using ne wpos hpos ar
    by (simp add: sprite_tracker_set_layout_def q qx m_def[symmetric])
qed

theorem set_layout_coherent_witness:
  "(0::uint) < 8 \<and> unat (8::uint) \<le> unat (max_texture_size tracker_16_2) \<and>
   (\<exists>t'. sprite_tracker_set_layout tracker_16_2 8 8 = Some t' \<and>
      unat (t_xnum t') * unat (8::uint) \<le> unat (max_texture_size tracker_16_2) \<and>
      unat (max_y t') * unat (8::uint) \<le> unat (max_texture_size tracker_16_2))"
  using set_layout_coherent [of 8 8 tracker_16_2]
  by (auto simp: tracker_16_2_def sprite_tracker_set_limits_def sprite_tracker_init_def)

text \<open>
  C7 as the specification words it fails when a cell is wider than the texture: with
  \<open>max_texture_size = 4\<close> and 8 by 8 cells the layout has one column, and \<open>1 * 8 > 4\<close>.
\<close>

theorem set_layout_counterexample:
  "(0::uint) < 8 \<and>
   map_option t_xnum (sprite_tracker_set_layout (sprite_tracker_set_limits sprite_tracker_init 4 2) 8 8) = Some 1 \<and>
   map_option max_texture_size (sprite_tracker_set_layout (sprite_tracker_set_limits sprite_tracker_init 4 2) 8 8) = Some 4 \<and>
   \<not> (unat (1::uint) * unat (8::uint) \<le> unat (4::size_t))"
  by (simp add: sprite_tracker_set_layout_def sprite_tracker_set_limits_def sprite_tracker_init_def UINT16_MAX_def)

section \<open>Load flags\<close>

lemmas ft_defs = FT_LOAD_DEFAULT_def FT_LOAD_NO_HINTING_def FT_LOAD_RENDER_def FT_RENDER_MODE_NORMAL_def
  FT_RENDER_MODE_LIGHT_def FT_LOAD_TARGET_def FT_LOAD_TARGET_NORMAL_def FT_LOAD_TARGET_LIGHT_def
  FT_LOAD_TARGET_MODE_def

text \<open>
  C10, as the code has it. In the flags that \<open>load_glyph\<close> passes to the renderer,
  \<^verbatim>\<open>NO_HINTING\<close> is set exactly when hinting is disabled, whatever the hint style; the
  hinting target is \<^verbatim>\<open>LIGHT\<close> exactly when hinting is enabled and \<open>0 < hintstyle < 3\<close>; in
  every other case the target field is the one of \<^verbatim>\<open>NORMAL\<close> (which is zero, so that adding
  it for \<open>hintstyle \<ge> 3\<close> leaves the flags as they are); \<^verbatim>\<open>RENDER\<close> is always set.
\<close>

theorem load_flags_by_hinting:
  "(get_load_flags h hs FT_LOAD_RENDER AND FT_LOAD_NO_HINTING = FT_LOAD_NO_HINTING) = (h = 0) \<and>
   (FT_LOAD_TARGET_MODE (get_load_flags h hs FT_LOAD_RENDER) = FT_RENDER_MODE_LIGHT)
      = (h \<noteq> 0 \<and> 0 < hs \<and> hs < 3) \<and>
   (FT_LOAD_TARGET_MODE (get_load_flags h hs FT_LOAD_RENDER) = FT_RENDER_MODE_NORMAL)
      = (\<not> (h \<noteq> 0 \<and> 0 < hs \<and> hs < 3)) \<and>
   get_load_flags h hs FT_LOAD_RENDER AND FT_LOAD_RENDER = FT_LOAD_RENDER"
  by (simp add: get_load_flags_def ft_defs)

text \<open>
  C10 as the specification words it fails: with hinting disabled and \<open>hintstyle = 3\<close> the
  flags carry \<^verbatim>\<open>NO_HINTING\<close> although \<open>hintstyle \<ge> 3\<close>; with hinting enabled and
  \<open>hintstyle = 0\<close> they do not carry it although neither target was asked for.
\<close>

theorem load_flags_counterexample:
  "get_load_flags 0 3 FT_LOAD_RENDER AND FT_LOAD_NO_HINTING = FT_LOAD_NO_HINTING \<and> (3::int) \<ge> 3 \<and>
   get_load_flags 1 0 FT_LOAD_RENDER AND FT_LOAD_NO_HINTING \<noteq> FT_LOAD_NO_HINTING \<and>
   \<not> (3 \<le> (0::int)) \<and> \<not> (0 < (0::int) \<and> (0::int) < 3)"
  by (simp add: get_load_flags_def ft_defs)

section \<open>Trimming an italic glyph that overflows its cells\<close>

lemma column_scan_iff:
  "column_scan ans x y c = (c \<or> (\<exists>y'. y \<le> y' \<and> y' < pb_rows ans \<and> pb_buf ans (x + y' * pb_stride ans) > 200))"
proof (induction ans x y c rule: column_scan.induct)
  case (1 ans x y c)
  show ?case
  proof (cases "y < pb_rows ans \<and> \<not> c")
    case False
    then show ?thesis
      by (subst column_scan.simps) (auto simp: not_less)
  next
    case True
    then have ylt: "y < pb_rows ans" and nc: "\<not> c" by simp_all
    have st: "\<And>y'. (y \<le> y') = (y' = y \<or> y + 1 \<le> y')"
      using ylt by unat_arith
    show ?thesis
      apply (subst column_scan.simps)
      apply (simp add: True "1.IH"[OF True] nc ylt)
      using st ylt by auto
  qed
qed

lemma column_scan_empty: "column_scan ans x 0 False = (\<not> column_empty ans x)"
  by (simp add: column_scan_iff column_empty_def)

lemma sless_m1: "unat (x::size_t) < 2 ^ 63 \<Longrightarrow> (- 1) <s x"
proof -
  assume a: "unat x < 2 ^ 63"
  have "int (unat x) < int (2 ^ 63)" using a by (simp only: of_nat_less_iff)
  then have u: "uint x < 2 ^ 63" by simp
  have "sint x = signed_take_bit 63 (uint x)" by (simp add: sint_uint)
  also have "\<dots> = uint x"
  proof (rule signed_take_bit_int_eq_self)
    have "(0::int) \<le> uint x" by simp
    moreover have "- (2 ^ 63) \<le> (0::int)" by simp
    ultimately show "- (2 ^ 63) \<le> uint x" by (rule order_trans[rotated])
    show "uint x < 2 ^ 63" by (rule u)
  qed
  finally have "0 \<le> sint x" by simp
  then show ?thesis by (simp add: word_sless_alt)
qed

lemma trim_loop_done: "trim_loop ans extra True x = (ans, extra)"
  by (subst trim_loop.simps) simp

lemma column_empty_width [simp]: "column_empty (ans\<lparr>pb_width := w\<rparr>) x = column_empty ans x"
  by (simp add: column_empty_def)

lemma trim_loop_spec:
  assumes "n = unat extra" 
    and "trim_loop ans extra False (pb_width ans - 1) = (ans', extra')"
    and "unat extra \<le> unat (pb_width ans)" and "unat (pb_width ans) < 2 ^ 63"
  shows "\<exists>k. k \<le> unat extra \<and> unat extra' = unat extra - k \<and>
      ans' = ans\<lparr>pb_width := pb_width ans - of_nat k\<rparr> \<and>
      (\<forall>j<k. column_empty ans (pb_width ans - 1 - of_nat j)) \<and>
      (k < unat extra \<longrightarrow> \<not> column_empty ans (pb_width ans - 1 - of_nat k))"
  using assms
proof (induction n arbitrary: ans extra)
  case 0
  then have "extra = 0" by (simp add: unat_eq_0)
  moreover have "trim_loop ans 0 False (pb_width ans - 1) = (ans, 0)"
    by (subst trim_loop.simps) simp
  ultimately have "ans' = ans" "extra' = 0" using "0.prems"(2) by simp_all
  then show ?case using \<open>extra = 0\<close> by simp
next
  case (Suc n)
  have "0 < unat extra" using Suc.prems(1) by simp
  then have wpos: "0 < unat (pb_width ans)" using Suc.prems(3) by linarith
  have epos: "0 < extra" using \<open>0 < unat extra\<close> by (simp add: unat_gt_0 word_gt_0)
  have wne: "pb_width ans \<noteq> 0" using wpos by (simp add: unat_gt_0)
  have "unat (pb_width ans - 1) < 2 ^ 63" using Suc.prems(4) wne by (simp add: unat_minus_one)
  then have sl: "(- 1) <s pb_width ans - 1" by (rule sless_m1)
  show ?case
  proof (cases "column_empty ans (pb_width ans - 1)")
    case False
    then have "trim_loop ans extra False (pb_width ans - 1) = (ans, extra)"
      by (subst trim_loop.simps) (simp add: sl epos column_scan_empty trim_loop_done)
    with Suc.prems have "ans' = ans" "extra' = extra" by simp_all
    with False epos show ?thesis
      by (intro exI[of _ 0]) (simp add: unat_gt_0)
  next
    case True
    let ?ans = "ans\<lparr>pb_width := pb_width ans - 1\<rparr>"
    have step: "trim_loop ans extra False (pb_width ans - 1) = trim_loop ?ans (extra - 1) False (pb_width ?ans - 1)"
      by (subst trim_loop.simps) (simp add: sl epos column_scan_empty True)
    have e1: "unat (extra - 1) = unat extra - 1" using epos by (simp add: unat_minus_one)
    have w1: "unat (pb_width ans - 1) = unat (pb_width ans) - 1" using wne by (simp add: unat_minus_one)
    have "\<exists>k. k \<le> unat (extra - 1) \<and> unat extra' = unat (extra - 1) - k \<and>
      ans' = ?ans\<lparr>pb_width := pb_width ?ans - of_nat k\<rparr> \<and>
      (\<forall>j<k. column_empty ?ans (pb_width ?ans - 1 - of_nat j)) \<and>
      (k < unat (extra - 1) \<longrightarrow> \<not> column_empty ?ans (pb_width ?ans - 1 - of_nat k))"
    proof (rule Suc.IH)
      show "n = unat (extra - 1)" using Suc.prems(1) e1 by simp
      show "trim_loop ?ans (extra - 1) False (pb_width ?ans - 1) = (ans', extra')"
        using step Suc.prems(2) by simp
      show "unat (extra - 1) \<le> unat (pb_width ?ans)" using e1 w1 Suc.prems(3) by simp
      show "unat (pb_width ?ans) < 2 ^ 63" using w1 Suc.prems(4) by simp
    qed
    then obtain k where k: "k \<le> unat (extra - 1)" "unat extra' = unat (extra - 1) - k"
      "ans' = ?ans\<lparr>pb_width := pb_width ?ans - of_nat k\<rparr>"
      "\<forall>j<k. column_empty ans (pb_width ans - 1 - 1 - of_nat j)"
      "k < unat (extra - 1) \<longrightarrow> \<not> column_empty ans (pb_width ans - 1 - 1 - of_nat k)"
      by (elim exE conjE) simp
    have cols: "\<forall>j<Suc k. column_empty ans (pb_width ans - 1 - of_nat j)"
    proof (intro allI impI)
      fix j assume "j < Suc k"
      show "column_empty ans (pb_width ans - 1 - of_nat j)"
      proof (cases j)
        case 0
        with True show ?thesis by simp
      next
        case (Suc j')
        with \<open>j < Suc k\<close> k(4) have "column_empty ans (pb_width ans - 1 - 1 - of_nat j')" by simp
        then show ?thesis by (simp add: Suc algebra_simps)
      qed
    qed
    have epos': "0 < unat extra" using epos by (simp add: unat_gt_0)
    show ?thesis
      apply (intro exI[of _ "Suc k"] conjI)
      using k(1) e1 epos' apply simp
      using k(2) e1 apply simp
      using k(3) apply (simp add: algebra_simps)
      using cols apply simp
      using k(5) e1 apply (simp add: algebra_simps)
      done
  qed
qed

lemma ucast_less_uint: "((ucast (a::uint) :: size_t) < ucast (b::uint)) = (a < b)"
  by (simp add: word_less_nat_alt unat_ucast_uint_size_t)

lemma col_index:
  assumes "j < W"
  shows "(of_nat W :: size_t) - 1 - of_nat j = of_nat (W - 1 - j)"
proof -
  have "W - 1 - j + j + 1 = W" using assms by simp
  then have "(of_nat (W - 1 - j) :: size_t) + of_nat j + 1 = of_nat W"
    by (metis of_nat_add of_nat_1)
  then show ?thesis by (simp add: algebra_simps)
qed

text \<open>
  C9, as the code has it. When the rendered width exceeds \<open>max_width = cell_width * num_cells\<close>
  (32-bit product), the glyph is italic and \<open>extra = width - max_width < cell_width div 2\<close>,
  \<open>render_bitmap\<close> succeeds and there is a number \<open>k \<le> extra\<close> of trimmed columns: the \<open>k\<close>
  rightmost columns are empty, and if \<open>k < extra\<close> the next column to the left is not.
  \<open>start_x\<close> is the remaining \<open>extra - k\<close>, and the width decreases by the trimmed columns
  and by \<open>start_x\<close>, that is by \<open>extra\<close> in all: the final width is \<open>max_width\<close>.
\<close>

theorem render_bitmap_italic_trim:
  assumes load: "load_glyph L self g = Some bm"
    and wide: "cell_width * num_cells < bitmap_width bm"
    and it: "italic \<noteq> 0"
    and small: "bitmap_width bm - cell_width * num_cells < cell_width div 2"
  shows "\<exists>ans' k. render_bitmap L S sc self g ans cell_width num_cells bold italic rescale = (True, self, ans') \<and>
     pb_buf ans' = bitmap_buffer bm \<and> pb_rows ans' = ucast (bitmap_rows bm) \<and>
     k \<le> unat (bitmap_width bm - cell_width * num_cells) \<and>
     (\<forall>j<k. column_empty ans' (of_nat (unat (bitmap_width bm) - 1 - j))) \<and>
     (k < unat (bitmap_width bm - cell_width * num_cells) \<longrightarrow>
        \<not> column_empty ans' (of_nat (unat (bitmap_width bm) - 1 - k))) \<and>
     unat (pb_start_x ans') = unat (bitmap_width bm - cell_width * num_cells) - k \<and>
     unat (pb_width ans') = unat (bitmap_width bm) - k - unat (pb_start_x ans') \<and>
     unat (pb_width ans') = unat (cell_width * num_cells)"
proof -
  define mw where "mw = cell_width * num_cells"
  define W where "W = unat (bitmap_width bm)"
  define E where "E = unat (bitmap_width bm - mw)"
  define ans1 where "ans1 = \<lparr>pb_buf = bitmap_buffer bm, pb_start_x = 0,
                      pb_width = (ucast (bitmap_width bm) :: size_t),
                      pb_stride = (if bitmap_pitch bm < 0 then word_of_int (- bitmap_pitch bm)
                                   else word_of_int (bitmap_pitch bm)),
                      pb_rows = ucast (bitmap_rows bm)\<rparr>"
  define extra where "extra = (ucast (bitmap_width bm - mw) :: size_t)"
  have mwlt: "unat mw < W" using wide by (simp add: mw_def W_def word_less_nat_alt)
  have Eeq: "E = W - unat mw" using wide unfolding E_def W_def mw_def by unat_arith
  have EW: "E \<le> W" using Eeq by simp
  have W32: "W < 2 ^ 32" unfolding W_def using unsigned_less[of "bitmap_width bm"] by simp
  have uE: "unat extra = E" by (simp add: extra_def E_def unat_ucast_uint_size_t)
  have uW: "unat (pb_width ans1) = W" by (simp add: ans1_def W_def unat_ucast_uint_size_t)
  have wW: "pb_width ans1 = of_nat W" by (simp add: ans1_def W_def)
  have rb: "render_bitmap L S sc self g ans cell_width num_cells bold italic rescale
      = (True, self, trim_borders ans1 extra)"
    using wide small it
    by (subst render_bitmap.simps)
       (simp add: load Let_def ucast_less_uint ans1_def extra_def mw_def)
  obtain a1 e1 where tl: "trim_loop ans1 extra False (pb_width ans1 - 1) = (a1, e1)"
    by (cases "trim_loop ans1 extra False (pb_width ans1 - 1)") auto
  have "\<exists>k. k \<le> unat extra \<and> unat e1 = unat extra - k \<and>
      a1 = ans1\<lparr>pb_width := pb_width ans1 - of_nat k\<rparr> \<and>
      (\<forall>j<k. column_empty ans1 (pb_width ans1 - 1 - of_nat j)) \<and>
      (k < unat extra \<longrightarrow> \<not> column_empty ans1 (pb_width ans1 - 1 - of_nat k))"
  proof (rule trim_loop_spec[OF refl tl])
    show "unat extra \<le> unat (pb_width ans1)" using uE uW EW by simp
    have "(2::nat) ^ 32 < 2 ^ 63" by simp
    with W32 show "unat (pb_width ans1) < 2 ^ 63" unfolding uW by (rule less_trans)
  qed
  then obtain k where k: "k \<le> E" "unat e1 = E - k"
      "a1 = ans1\<lparr>pb_width := pb_width ans1 - of_nat k\<rparr>"
      "\<forall>j<k. column_empty ans1 (of_nat W - 1 - of_nat j)"
      "k < E \<longrightarrow> \<not> column_empty ans1 (of_nat W - 1 - of_nat k)"
    unfolding uE wW by (elim exE conjE) simp
  define ans' where "ans' = trim_borders ans1 extra"
  have ans': "ans' = ans1\<lparr>pb_start_x := e1, pb_width := of_nat W - of_nat k - e1\<rparr>"
  proof -
    have "ans' = a1\<lparr>pb_start_x := e1, pb_width := pb_width a1 - e1\<rparr>"
      by (simp add: ans'_def trim_borders_def tl)
    then show ?thesis by (simp add: k(3) wW)
  qed
  have ce: "\<And>x. column_empty ans' x = column_empty ans1 x"
    by (simp add: ans' column_empty_def)
  have e1: "e1 = of_nat (E - k)" using k(2) by (metis of_nat_unat ucast_id)
  have "(of_nat W :: size_t) - of_nat k - e1 = of_nat (W - E)"
  proof -
    have "W - E + (E - k) + k = W" using k(1) EW by simp
    then have "(of_nat (W - E) :: size_t) + of_nat (E - k) + of_nat k = of_nat W"
      by (metis of_nat_add)
    then show ?thesis by (simp add: e1 algebra_simps)
  qed
  then have wfin: "pb_width ans' = of_nat (W - E)" by (simp add: ans')
  have "W - E < 2 ^ 64" using W32 by (simp add: less_imp_diff_less order_less_trans[where y="2^32"])
  then have uwfin: "unat (pb_width ans') = W - E"
    unfolding wfin by (simp add: unat_of_nat)
  have c1: "\<forall>j<k. column_empty ans' (of_nat (W - 1 - j))"
  proof (intro allI impI)
    fix j assume "j < k"
    then have "j < W" using k(1) EW by simp
    from k(4) \<open>j < k\<close> have "column_empty ans1 (of_nat W - 1 - of_nat j)" by blast
    then show "column_empty ans' (of_nat (W - 1 - j))"
      unfolding col_index[OF \<open>j < W\<close>] ce .
  qed
  have c2: "k < E \<longrightarrow> \<not> column_empty ans' (of_nat (W - 1 - k))"
  proof
    assume "k < E"
    then have "k < W" using EW by simp
    from k(5) \<open>k < E\<close> have "\<not> column_empty ans1 (of_nat W - 1 - of_nat k)" by blast
    then show "\<not> column_empty ans' (of_nat (W - 1 - k))"
      unfolding col_index[OF \<open>k < W\<close>] ce .
  qed
  have sx: "unat (pb_start_x ans') = E - k" by (simp add: ans' k(2))
  show ?thesis
    apply (intro exI[of _ ans'] exI[of _ k] conjI)
    using rb apply (simp add: ans'_def)
    apply (simp add: ans' ans1_def)
    apply (simp add: ans' ans1_def)
    using k(1) apply (simp add: E_def mw_def)
    using c1 apply (simp add: W_def)
    using c2 apply (simp add: W_def E_def mw_def)
    using sx apply (simp add: E_def mw_def)
    using uwfin sx k(1) EW apply (simp add: W_def[symmetric])
    using uwfin Eeq mwlt apply (simp add: mw_def)
    done
qed

theorem render_bitmap_italic_trim_witness:
  "load_glyph (loads glyph_8x1) face0 65 = Some glyph_8x1 \<and>
   (6::uint) * 1 < bitmap_width glyph_8x1 \<and> (1::int) \<noteq> 0 \<and>
   bitmap_width glyph_8x1 - 6 * 1 < (6::uint) div 2 \<and>
   fst (render_bitmap (loads glyph_8x1) size_ok scaled0 face0 65 ans0 6 1 0 1 True) \<and>
   unat (pb_width (snd (snd (render_bitmap (loads glyph_8x1) size_ok scaled0 face0 65 ans0 6 1 0 1 True)))) = 6"
  using render_bitmap_italic_trim [of "loads glyph_8x1" face0 65 glyph_8x1 6 1 1 size_ok scaled0 ans0 0 True]
  by (auto simp: load_glyph_def loads_def glyph_8x1_def Let_def)

text \<open>
  C9 as the specification words it fails: a glyph 5 columns wide with no empty column, in
  one cell of width 4, has no column trimmed, and yet its width decreases from 5 to 4
  (\<open>start_x = 1\<close>).
\<close>

theorem render_bitmap_width_counterexample:
  "render_bitmap (loads glyph_5x1) size_ok scaled0 face0 65 ans0 4 1 0 1 True =
     (True, face0, \<lparr>pb_buf = (\<lambda>_. 255), pb_start_x = 1, pb_width = 4, pb_stride = 5, pb_rows = 1\<rparr>) \<and>
   \<not> column_empty \<lparr>pb_buf = (\<lambda>_. 255), pb_start_x = 1, pb_width = 4, pb_stride = 5, pb_rows = 1\<rparr> 4 \<and>
   unat (bitmap_width glyph_5x1) - unat (4::size_t) \<noteq> 0"
  by (simp add: render_bitmap.simps load_glyph_def loads_def glyph_5x1_def Let_def trim_borders_def
      trim_loop.simps column_scan.simps column_empty_def word_sless_alt)

section \<open>Composition stays inside the destination\<close>

lemma in_cellI:
  assumes "dr < cell_height" "dc < cell_width"
  shows "in_cell cell_width cell_height (dr * cell_width + dc)"
proof -
  have a: "unat dr < unat cell_height" and b: "unat dc < unat cell_width"
    using assms by (simp_all add: word_less_nat_alt)
  have "unat (dr * cell_width + dc) \<le> unat (dr * cell_width) + unat dc"
    by (simp add: unat_word_ariths)
  also have "unat (dr * cell_width) \<le> unat dr * unat cell_width"
    by (simp add: unat_word_ariths)
  finally have "unat (dr * cell_width + dc) \<le> unat dr * unat cell_width + unat dc" by simp
  also have "\<dots> < unat dr * unat cell_width + unat cell_width" using b by simp
  also have "\<dots> = Suc (unat dr) * unat cell_width" by simp
  also have "\<dots> \<le> unat cell_height * unat cell_width"
    using a by (intro mult_le_mono1) simp
  finally show ?thesis using assms unfolding in_cell_def
    by (intro exI[of _ dr] exI[of _ dc]) (simp add: mult.commute)
qed

lemma blit_row_spec:
  assumes "blit_row (cell, stores) bm cw sr dr sc dc = (cell', stores')"
    and "dr < ch" and "\<forall>i\<in>set stores. in_cell cw ch i"
  shows "(\<forall>i\<in>set stores'. in_cell cw ch i) \<and> set stores \<subseteq> set stores' \<and>
     (\<forall>i. i \<notin> set stores' \<longrightarrow> cell' i = cell i)"
  using assms
proof (induction "(cell, stores)" bm cw sr dr sc dc arbitrary: cell stores rule: blit_row.induct)
  case (1 cell stores bm cell_width sr dr sc dc)
  show ?case
  proof (cases "sc < pb_width bm \<and> dc < cell_width")
    case False
    with "1.prems" show ?thesis by (subst (asm) blit_row.simps) auto
  next
    case True
    let ?i = "dr * cell_width + dc"
    let ?v = "(ucast (((ucast (cell ?i) :: 16 word) + ucast (pb_buf bm (sr * pb_stride bm + sc))) mod 256) :: 8 word)"
    have rec: "blit_row (cell(?i := ?v), stores @ [?i]) bm cell_width sr dr (sc + 1) (dc + 1) = (cell', stores')"
      using "1.prems"(1) True by (subst (asm) blit_row.simps) (simp add: Let_def)
    have ic: "in_cell cell_width ch ?i" using "1.prems"(2) True by (simp add: in_cellI)
    have "(\<forall>i\<in>set stores'. in_cell cell_width ch i) \<and> set (stores @ [?i]) \<subseteq> set stores' \<and>
     (\<forall>i. i \<notin> set stores' \<longrightarrow> cell' i = (cell(?i := ?v)) i)"
    proof (rule "1.hyps"[OF True refl refl rec "1.prems"(2)])
      show "\<forall>i\<in>set (stores @ [?i]). in_cell cell_width ch i"
        using "1.prems"(3) ic by simp
    qed
    then show ?thesis by auto
  qed
qed


lemma blit_rows_spec:
  assumes "blit_rows (cell, stores) bm cw ch sr dr ssc dsc = (cell', stores')"
    and "\<forall>i\<in>set stores. in_cell cw ch i"
  shows "(\<forall>i\<in>set stores'. in_cell cw ch i) \<and> set stores \<subseteq> set stores' \<and>
     (\<forall>i. i \<notin> set stores' \<longrightarrow> cell' i = cell i)"
  using assms
proof (induction "(cell, stores)" bm cw ch sr dr ssc dsc arbitrary: cell stores rule: blit_rows.induct)
  case (1 bm cell_width cell_height sr dr ssc dsc cell stores)
  show ?case
  proof (cases "sr < pb_rows bm \<and> dr < cell_height")
    case False
    with "1.prems" show ?thesis by (subst (asm) blit_rows.simps) auto
  next
    case True
    obtain c1 s1 where row: "blit_row (cell, stores) bm cell_width sr dr ssc dsc = (c1, s1)"
      by (cases "blit_row (cell, stores) bm cell_width sr dr ssc dsc") auto
    have r: "(\<forall>i\<in>set s1. in_cell cell_width cell_height i) \<and> set stores \<subseteq> set s1 \<and>
       (\<forall>i. i \<notin> set s1 \<longrightarrow> c1 i = cell i)"
      using row True "1.prems"(2) by (intro blit_row_spec) auto
    have rec: "blit_rows (c1, s1) bm cell_width cell_height (sr + 1) (dr + 1) ssc dsc = (cell', stores')"
      using "1.prems"(1) True by (subst (asm) blit_rows.simps) (simp add: row)
    have "(\<forall>i\<in>set stores'. in_cell cell_width cell_height i) \<and> set s1 \<subseteq> set stores' \<and>
       (\<forall>i. i \<notin> set stores' \<longrightarrow> cell' i = c1 i)"
      using r by (intro "1.hyps"[OF True row rec]) simp
    with r show ?thesis by auto
  qed
qed

text \<open>
  C8. Every store of \<open>place_bitmap_in_cell\<close> goes to an offset \<open>dr * cell_width + dc\<close> with
  \<open>dr < cell_height\<close> and \<open>dc < cell_width\<close>, which is below \<open>cell_width * cell_height\<close>;
  every byte not stored to, and so every byte outside the destination, keeps its value.
\<close>

theorem place_bitmap_in_cell_bounds:
  assumes "place_bitmap_in_cell offset cell bm cell_width cell_height x_offset y_offset metrics baseline
             = (cell', stores)"
  shows "(\<forall>i\<in>set stores. \<exists>dr dc. dr < cell_height \<and> dc < cell_width \<and> i = dr * cell_width + dc \<and>
            unat i < unat cell_width * unat cell_height) \<and>
         (\<forall>i. i \<notin> set stores \<longrightarrow> cell' i = cell i) \<and>
         (\<forall>i::size_t. unat cell_width * unat cell_height \<le> unat i \<longrightarrow> cell' i = cell i)"
proof -
  from assms obtain sr dr ssc dsc where
    "blit_rows (cell, []) bm cell_width cell_height sr dr ssc dsc = (cell', stores)"
    unfolding place_bitmap_in_cell_def Let_def by blast
  then have r: "(\<forall>i\<in>set stores. in_cell cell_width cell_height i) \<and> set [] \<subseteq> set stores \<and>
     (\<forall>i. i \<notin> set stores \<longrightarrow> cell' i = cell i)"
    by (rule blit_rows_spec) simp
  then have a: "\<forall>i\<in>set stores. in_cell cell_width cell_height i"
    and b: "\<forall>i. i \<notin> set stores \<longrightarrow> cell' i = cell i" by simp_all
  have c: "\<forall>i::size_t. unat cell_width * unat cell_height \<le> unat i \<longrightarrow> cell' i = cell i"
  proof (intro allI impI)
    fix i :: size_t assume h: "unat cell_width * unat cell_height \<le> unat i"
    have "i \<notin> set stores"
    proof
      assume "i \<in> set stores"
      with a have "in_cell cell_width cell_height i" by blast
      then have "unat i < unat cell_width * unat cell_height" unfolding in_cell_def by blast
      with h show False by simp
    qed
    with b show "cell' i = cell i" by blast
  qed
  from a b c show ?thesis unfolding in_cell_def by blast
qed

lemma place_glyph_2x2: "place_bitmap_in_cell to_offset (\<lambda>_. 1) glyph_2x2 2 2 0 0 metrics0 1
   = ((\<lambda>_. 1)(0 := 0, 1 := 0, 2 := 0, 3 := 0), [0, 1, 2, 3])"
  by (simp add: place_bitmap_in_cell_def to_offset_def glyph_2x2_def metrics0_def Let_def blit_rows.simps blit_row.simps word_sless_alt)

theorem place_bitmap_in_cell_bounds_witness:
  "place_bitmap_in_cell to_offset (\<lambda>_. 1) glyph_2x2 2 2 0 0 metrics0 1
     = ((\<lambda>_. 1)(0 := 0, 1 := 0, 2 := 0, 3 := 0), [0, 1, 2, 3]) \<and>
   unat (3 :: size_t) < unat (2 :: size_t) * unat (2 :: size_t) \<and>
   ((\<lambda>_. 1)(0 := 0, 1 := 0, 2 := 0, 3 := 0)) (4 :: size_t) = (1 :: 8 word)"
  using place_bitmap_in_cell_bounds [OF place_glyph_2x2] place_glyph_2x2
  by simp

section \<open>Running the sprite cache and the line renderer\<close>

lemmas spf_defs = sprite_position_for_def claim_node_def test_sprite_position_for_def
  state_16_2_def tracker_16_2_def sprite_tracker_set_layout_def sprite_tracker_set_limits_def
  sprite_tracker_init_def fonts_state_init_def font_zero_def sp_zero_def nodes_def node_at_def
  node_set_def link_node_def deref_def xyz_def do_increment_def UINT16_MAX_def Let_def
  word_le_nat_alt word_less_nat_alt

text \<open>
  \<open>sprite_position_for\<close> returns \<^verbatim>\<open>NULL\<close> only when \<^verbatim>\<open>calloc\<close> fails, with error 1 and the
  state as it was: an atlas that is full never makes it return \<^verbatim>\<open>NULL\<close>.
\<close>

lemma position_for_NULL:
  assumes "sprite_position_for st f g e i ok err = (None, err', st')"
  shows "err' = 1 \<and> \<not> ok \<and> st' = st"
  using assms
  by (auto simp: sprite_position_for_def claim_node_def Let_def split: if_splits walk.splits prod.splits)

text \<open>
  C1, on the code. With \<open>max_texture_size = 16\<close>, \<open>max_array_len = 2\<close> and cells of 8 by 8, nine
  allocations through \<open>test_sprite_position_for\<close> all succeed: the eighth returns
  \<open>(1,1,1)\<close> as a claimed slot although its advance has set the error to 2 (atlas full), and
  the ninth returns the slot \<open>(0,0,2)\<close> in a layer past the limit instead of failing.
\<close>

theorem atlas_full_not_propagated:
  "fst (test_positions state_16_2 [0, 1, 2, 3, 4, 5, 6, 7, 8]) =
     [Inr (0,0,0), Inr (1,0,0), Inr (0,1,0), Inr (1,1,0), Inr (0,0,1), Inr (1,0,1), Inr (0,1,1),
      Inr (1,1,1), Inr (0,0,2)] \<and>
   fst (sprite_position_for (snd (test_positions state_16_2 [0, 1, 2, 3, 4, 5, 6])) box_font 7 0 False True 0)
     = Some (7, 0) \<and>
   fst (snd (sprite_position_for (snd (test_positions state_16_2 [0, 1, 2, 3, 4, 5, 6])) box_font 7 0 False True 0))
     = 2"
  by (simp add: spf_defs)

text \<open>
  C3, on the code. In a line of a wide cell, its right half (width 0) and a narrow cell,
  only cell 0 is given a font: cell 2 is skipped although its predecessor has width 0,
  because \<open>prev_width\<close> is not updated when a cell is skipped.
\<close>

theorem render_line_skips_rest_of_line:
  "render_line all_medium line_wide = [Font_for_cell 0, Render_run 0 3 medium_font] \<and>
   c_attrs (l_cells line_wide ! 1) AND WIDTH_MASK = 0 \<and>
   Font_for_cell 2 \<notin> set (render_line all_medium line_wide)"
  by (simp add: render_line_def render_line_loop.simps line_wide_def cell_of_def font_for_cell_def
      all_medium_def WIDTH_MASK_def Let_def)

text \<open>
  C4, on the code. In a line of a blank cell and a box drawing cell, the font changes at
  cell 1 with the run of the blank font starting at cell 0; \<open>render_run\<close> is called for that
  run with the cell at index 1, not at index 0 (and count 1).
\<close>

theorem render_line_run_starts_at_current_cell:
  "render_line all_medium line_blank_box =
     [Font_for_cell 0, Font_for_cell 1, Render_run 1 1 blank_font, Render_run 1 1 box_font]"
  by (simp add: render_line_def render_line_loop.simps line_blank_box_def cell_of_def font_for_cell_def
      all_medium_def WIDTH_MASK_def Let_def)

text \<open>
  C5, on the code. After box glyph 0 has got a sprite, a successful \<open>update_cell_metrics\<close>
  that changes the cell height from 8 to 16 resets the tracker's cursor to \<open>(0,0,0)\<close> and
  leaves the head of bucket 0 of the box font's cache filled.
\<close>

theorem update_cell_metrics_keeps_box_cache:
  "g_cell_height state_box = 8 \<and>
   fst (update_cell_metrics env_8x16 state_box) = Inr (8, 16, 12, 13, 1) \<and>
   g_cell_height (snd (update_cell_metrics env_8x16 state_box)) = 16 \<and>
   t_x (sprite_tracker (snd (update_cell_metrics env_8x16 state_box))) = 0 \<and>
   t_y (sprite_tracker (snd (update_cell_metrics env_8x16 state_box))) = 0 \<and>
   t_z (sprite_tracker (snd (update_cell_metrics env_8x16 state_box))) = 0 \<and>
   sp_filled (fst (f_sprite_map (fonts (snd (update_cell_metrics env_8x16 state_box)) box_font) 0))"
  by (simp add: update_cell_metrics_def state_box_def env_8x16_def CALL_def CALL_fallback.simps
       clear_sprite_map_def CLEAR_def spf_defs)

section \<open>Cache idempotence\<close>

lemma keeps_refl: "keeps s s" by (simp add: keeps_def)

lemma keeps_trans: "keeps a b \<Longrightarrow> keeps b c \<Longrightarrow> keeps a c"
  by (auto simp: keeps_def)

lemma bucket_ext_refl: "bucket_ext b b" by (simp add: bucket_ext_def keeps_refl)

lemma bucket_ext_trans: "bucket_ext a b \<Longrightarrow> bucket_ext b c \<Longrightarrow> bucket_ext a c"
  unfolding bucket_ext_def
  by (meson keeps_trans le_trans less_le_trans)

lemma state_ext_refl: "state_ext st st" by (simp add: state_ext_def bucket_ext_refl)

lemma state_ext_trans: "state_ext a b \<Longrightarrow> state_ext b c \<Longrightarrow> state_ext a c"
  unfolding state_ext_def by (meson bucket_ext_trans)

lemma walk_Hit:
  "chain_walk l g e i d0 = Hit d \<Longrightarrow>
     \<exists>n. d = d0 + n \<and> n < length l \<and> sp_filled (l ! n) \<and> sp_matches (l ! n) g e i \<and>
         (\<forall>j<n. sp_filled (l ! j) \<and> \<not> sp_matches (l ! j) g e i)"
proof (induction l arbitrary: d0)
  case Nil
  then show ?case by simp
next
  case (Cons s ns)
  show ?case
  proof (cases "sp_filled s \<and> \<not> sp_matches s g e i")
    case False
    with Cons.prems have "d = d0 \<and> sp_filled s \<and> sp_matches s g e i"
      by (auto simp: sp_matches_def split: if_splits)
    then show ?thesis by (intro exI[of _ 0]) simp
  next
    case True
    with Cons.prems have "chain_walk ns g e i (Suc d0) = Hit d"
      by (auto simp: sp_matches_def split: if_splits)
    from Cons.IH[OF this] obtain n where n: "d = Suc d0 + n" "n < length ns" "sp_filled (ns ! n)"
      "sp_matches (ns ! n) g e i" "\<forall>j<n. sp_filled (ns ! j) \<and> \<not> sp_matches (ns ! j) g e i"
      by blast
    have "\<forall>j<Suc n. sp_filled ((s # ns) ! j) \<and> \<not> sp_matches ((s # ns) ! j) g e i"
      using True n(5) by (auto simp: nth_Cons split: nat.splits)
    with n show ?thesis by (intro exI[of _ "Suc n"]) simp
  qed
qed

lemma walk_Hit_intro:
  "n < length l \<Longrightarrow> sp_filled (l ! n) \<Longrightarrow> sp_matches (l ! n) g e i \<Longrightarrow>
   (\<forall>j<n. sp_filled (l ! j) \<and> \<not> sp_matches (l ! j) g e i) \<Longrightarrow>
   chain_walk l g e i d0 = Hit (d0 + n)"
proof (induction l arbitrary: n d0)
  case Nil
  then show ?case by simp
next
  case (Cons s ns)
  show ?case
  proof (cases n)
    case 0
    with Cons.prems show ?thesis by (simp add: sp_matches_def)
  next
    case (Suc m)
    from Cons.prems(4) Suc have h: "sp_filled s \<and> \<not> sp_matches s g e i" by force
    have "chain_walk ns g e i (Suc d0) = Hit (Suc d0 + m)"
    proof (rule Cons.IH)
      show "m < length ns" using Cons.prems(1) Suc by simp
      show "sp_filled (ns ! m)" using Cons.prems(2) Suc by simp
      show "sp_matches (ns ! m) g e i" using Cons.prems(3) Suc by simp
      show "\<forall>j<m. sp_filled (ns ! j) \<and> \<not> sp_matches (ns ! j) g e i"
      proof (intro allI impI)
        fix j assume "j < m"
        then have "Suc j < n" using Suc by simp
        with Cons.prems(4) have "sp_filled ((s # ns) ! Suc j) \<and> \<not> sp_matches ((s # ns) ! Suc j) g e i"
          by blast
        then show "sp_filled (ns ! j) \<and> \<not> sp_matches (ns ! j) g e i" by simp
      qed
    qed
    with h Suc show ?thesis by (auto simp: sp_matches_def)
  qed
qed

lemma walk_Claim:
  "chain_walk l g e i d0 = Claim d \<Longrightarrow>
     \<exists>n. d = d0 + n \<and> n < length l \<and> \<not> sp_filled (l ! n) \<and>
         (\<forall>j<n. sp_filled (l ! j) \<and> \<not> sp_matches (l ! j) g e i)"
proof (induction l arbitrary: d0)
  case Nil
  then show ?case by simp
next
  case (Cons s ns)
  show ?case
  proof (cases "sp_filled s")
    case False
    with Cons.prems have "d = d0" by simp
    with False show ?thesis by (intro exI[of _ 0]) simp
  next
    case True
    with Cons.prems have nm: "\<not> sp_matches s g e i" and "chain_walk ns g e i (Suc d0) = Claim d"
      by (auto simp: sp_matches_def split: if_splits)
    from Cons.IH[OF this(2)] obtain n where n: "d = Suc d0 + n" "n < length ns" "\<not> sp_filled (ns ! n)"
      "\<forall>j<n. sp_filled (ns ! j) \<and> \<not> sp_matches (ns ! j) g e i"
      by blast
    have "\<forall>j<Suc n. sp_filled ((s # ns) ! j) \<and> \<not> sp_matches ((s # ns) ! j) g e i"
      using True nm n(4) by (auto simp: nth_Cons split: nat.splits)
    with n show ?thesis by (intro exI[of _ "Suc n"]) simp
  qed
qed

lemma walk_Grow:
  "chain_walk l g e i d0 = Grow d \<Longrightarrow>
     d = d0 + length l \<and> (\<forall>j<length l. sp_filled (l ! j) \<and> \<not> sp_matches (l ! j) g e i)"
proof (induction l arbitrary: d0)
  case Nil
  then show ?case by simp
next
  case (Cons s ns)
  from Cons.prems have h: "sp_filled s" "\<not> sp_matches s g e i" "chain_walk ns g e i (Suc d0) = Grow d"
    by (auto simp: sp_matches_def split: if_splits)
  from Cons.IH[OF h(3)] have "d = Suc d0 + length ns"
    and a: "\<forall>j<length ns. sp_filled (ns ! j) \<and> \<not> sp_matches (ns ! j) g e i" by simp_all
  moreover have "\<forall>j<length (s # ns). sp_filled ((s # ns) ! j) \<and> \<not> sp_matches ((s # ns) ! j) g e i"
    using h a by (auto simp: nth_Cons split: nat.splits)
  ultimately show ?case by simp
qed

lemma nodes_node_set: "nodes (node_set b d s) = (nodes b)[d := s]"
  by (cases d) (simp_all add: nodes_def node_set_def)

lemma nodes_link_node: "nodes (link_node b) = nodes b @ [sp_zero]"
  by (simp add: nodes_def link_node_def)

lemma hit_ext:
  assumes hit: "chain_walk (nodes b) g e i 0 = Hit d" and ext: "bucket_ext b b'"
  shows "chain_walk (nodes b') g e i 0 = Hit d \<and> xyz (node_at b' d) = xyz (node_at b d)"
proof -
  from walk_Hit[OF hit] have d: "d < length (nodes b)" "sp_filled (nodes b ! d)"
    "sp_matches (nodes b ! d) g e i" "\<forall>j<d. sp_filled (nodes b ! j) \<and> \<not> sp_matches (nodes b ! j) g e i"
    by auto
  from ext have len: "length (nodes b) \<le> length (nodes b')"
    and k: "\<And>j. j < length (nodes b) \<Longrightarrow> keeps (nodes b ! j) (nodes b' ! j)"
    by (simp_all add: bucket_ext_def)
  have kd: "keeps (nodes b ! d) (nodes b' ! d)" using k d(1) by simp
  have "chain_walk (nodes b') g e i 0 = Hit (0 + d)"
  proof (rule walk_Hit_intro)
    show "d < length (nodes b')" using d(1) len by simp
    show "sp_filled (nodes b' ! d)" using kd d(2) by (simp add: keeps_def)
    show "sp_matches (nodes b' ! d) g e i" using kd d(2,3) by (simp add: keeps_def sp_matches_def)
    show "\<forall>j<d. sp_filled (nodes b' ! j) \<and> \<not> sp_matches (nodes b' ! j) g e i"
    proof (intro allI impI)
      fix j assume "j < d"
      then have "keeps (nodes b ! j) (nodes b' ! j)" using k d(1) by simp
      moreover have "sp_filled (nodes b ! j) \<and> \<not> sp_matches (nodes b ! j) g e i"
        using d(4) \<open>j < d\<close> by simp
      ultimately show "sp_filled (nodes b' ! j) \<and> \<not> sp_matches (nodes b' ! j) g e i"
        by (simp add: keeps_def sp_matches_def)
    qed
  qed
  moreover have "xyz (node_at b' d) = xyz (node_at b d)"
    using kd d(2) by (simp add: keeps_def node_at_def)
  ultimately show ?thesis by simp
qed

lemma ext_node_set_unfilled:
  assumes "d < length (nodes b) \<Longrightarrow> \<not> sp_filled (nodes b ! d)"
  shows "bucket_ext b (node_set b d s)"
  unfolding bucket_ext_def nodes_node_set
proof (intro conjI allI impI)
  show "length (nodes b) \<le> length ((nodes b)[d := s])" by simp
next
  fix j assume j: "j < length (nodes b)"
  show "keeps (nodes b ! j) ((nodes b)[d := s] ! j)"
  proof (cases "j = d")
    case True
    with assms j show ?thesis by (simp add: keeps_def)
  next
    case False
    then show ?thesis by (simp add: keeps_refl)
  qed
qed

lemma ext_link_node: "bucket_ext b (node_set (link_node b) (length (nodes b)) s)"
  unfolding bucket_ext_def nodes_node_set nodes_link_node
  by (simp add: nth_append keeps_refl)

lemma ext_node_set_rendered:
  "bucket_ext b (node_set b d ((node_at b d)\<lparr>sp_rendered := True\<rparr>))"
  unfolding bucket_ext_def nodes_node_set
proof (intro conjI allI impI)
  show "length (nodes b) \<le> length ((nodes b)[d := (node_at b d)\<lparr>sp_rendered := True\<rparr>])" by simp
next
  fix j assume j: "j < length (nodes b)"
  show "keeps (nodes b ! j) ((nodes b)[d := (node_at b d)\<lparr>sp_rendered := True\<rparr>] ! j)"
  proof (cases "j = d")
    case True
    with j show ?thesis by (simp add: keeps_def node_at_def xyz_def)
  next
    case False
    then show ?thesis by (simp add: keeps_refl)
  qed
qed

lemma state_ext_upd:
  assumes "bucket_ext (f_sprite_map (fonts st font) idx) b'"
  shows "state_ext st
     (st\<lparr>sprite_tracker := t,
        fonts := (fonts st)(font := (fonts st font)\<lparr>f_sprite_map := (f_sprite_map (fonts st font))(idx := b')\<rparr>)\<rparr>)"
  using assms by (auto simp: state_ext_def bucket_ext_refl)

lemma state_ext_upd':
  assumes "bucket_ext (f_sprite_map (fonts st font) idx) b'"
  shows "state_ext st
     (st\<lparr>fonts := (fonts st)(font := (fonts st font)\<lparr>f_sprite_map := (f_sprite_map (fonts st font))(idx := b')\<rparr>)\<rparr>)"
  using assms by (auto simp: state_ext_def bucket_ext_refl)

lemma claim_node_spec:
  assumes c: "claim_node st font idx b d g e i err = (r, err', st')"
    and dlen: "d < length (nodes b)"
    and pre: "\<forall>j<d. sp_filled (nodes b ! j) \<and> \<not> sp_matches (nodes b ! j) g e i"
    and ext: "\<And>s. bucket_ext (f_sprite_map (fonts st font) idx) (node_set b d s)"
  shows "r = Some (idx, d) \<and> state_ext st st' \<and>
         chain_walk (nodes (f_sprite_map (fonts st' font) idx)) g e i 0 = Hit d"
proof -
  define t where "t = sprite_tracker st"
  define s where "s = (node_at b d)\<lparr>sp_glyph := g, sp_extra_glyphs := e,
                 sp_is_second := i, sp_filled := True, sp_rendered := False,
                 sp_x := ucast (t_x t), sp_y := ucast (t_y t), sp_z := ucast (t_z t)\<rparr>"
  obtain t' e2 where inc: "do_increment t err = (t', e2)" by (cases "do_increment t err") auto
  have st': "st' = st\<lparr>sprite_tracker := t',
         fonts := (fonts st)(font := (fonts st font)\<lparr>f_sprite_map := (f_sprite_map (fonts st font))(idx := node_set b d s)\<rparr>)\<rparr>"
    and r: "r = Some (idx, d)"
    using c by (simp_all add: claim_node_def Let_def t_def[symmetric] s_def[symmetric] inc)
  have e1: "bucket_ext (f_sprite_map (fonts st font) idx) (node_set b d s)"
    by (rule ext)
  have se: "state_ext st st'" unfolding st' by (rule state_ext_upd[OF e1])
  have b': "f_sprite_map (fonts st' font) idx = node_set b d s" by (simp add: st')
  have "chain_walk (nodes (node_set b d s)) g e i 0 = Hit (0 + d)"
  proof (rule walk_Hit_intro)
    show "d < length (nodes (node_set b d s))" using dlen by (simp add: nodes_node_set)
    show "sp_filled (nodes (node_set b d s) ! d)" using dlen by (simp add: nodes_node_set s_def)
    show "sp_matches (nodes (node_set b d s) ! d) g e i"
      using dlen by (simp add: nodes_node_set s_def sp_matches_def)
    show "\<forall>j<d. sp_filled (nodes (node_set b d s) ! j) \<and> \<not> sp_matches (nodes (node_set b d s) ! j) g e i"
      using pre by (simp add: nodes_node_set)
  qed
  with r se b' show ?thesis by simp
qed

lemma position_for_spec:
  assumes c: "sprite_position_for st font g e i ok err = (r, err', st')"
  shows "state_ext st st' \<and>
     (\<forall>p. r = Some p \<longrightarrow> fst p = unat (g AND 0x3ff) \<and>
        chain_walk (nodes (f_sprite_map (fonts st' font) (fst p))) g e i 0 = Hit (snd p))"
proof -
  define idx where "idx = unat (g AND 0x3ff)"
  define b where "b = f_sprite_map (fonts st font) idx"
  show ?thesis
  proof (cases "sp_glyph (fst b) = g \<and> sp_filled (fst b) \<and> sp_extra_glyphs (fst b) = e \<and> sp_is_second (fst b) = i")
    case True
    with c have r: "r = Some (idx, 0)" "st' = st"
      by (simp_all add: sprite_position_for_def Let_def idx_def[symmetric] b_def[symmetric])
    have "chain_walk (nodes b) g e i 0 = Hit 0" using True by (simp add: nodes_def)
    with r show ?thesis by (simp add: state_ext_refl idx_def b_def)
  next
    case False
    note nofast = this
    show ?thesis
    proof (cases "chain_walk (nodes b) g e i 0")
      case (Hit d)
      with c nofast have r: "r = Some (idx, d)" "st' = st"
        by (simp_all add: sprite_position_for_def Let_def idx_def[symmetric] b_def[symmetric])
      with Hit show ?thesis by (simp add: state_ext_refl idx_def b_def)
    next
      case (Claim d)
      with c nofast have cl: "claim_node st font idx b d g e i err = (r, err', st')"
        by (simp add: sprite_position_for_def Let_def idx_def[symmetric] b_def[symmetric])
      from walk_Claim[OF Claim] have d: "d < length (nodes b)" "\<not> sp_filled (nodes b ! d)"
        "\<forall>j<d. sp_filled (nodes b ! j) \<and> \<not> sp_matches (nodes b ! j) g e i" by auto
      have "r = Some (idx, d) \<and> state_ext st st' \<and>
         chain_walk (nodes (f_sprite_map (fonts st' font) idx)) g e i 0 = Hit d"
      proof (rule claim_node_spec[OF cl d(1) d(3)])
        fix s show "bucket_ext (f_sprite_map (fonts st font) idx) (node_set b d s)"
          unfolding b_def[symmetric] using d(2) by (intro ext_node_set_unfilled) simp
      qed
      then show ?thesis by (simp add: idx_def)
    next
      case (Grow d)
      from walk_Grow[OF Grow] have d: "d = length (nodes b)"
        "\<forall>j<length (nodes b). sp_filled (nodes b ! j) \<and> \<not> sp_matches (nodes b ! j) g e i" by auto
      show ?thesis
      proof (cases ok)
        case False
        with c nofast Grow have "r = None" "st' = st"
          by (simp_all add: sprite_position_for_def Let_def idx_def[symmetric] b_def[symmetric])
        then show ?thesis by (simp add: state_ext_refl)
      next
        case True
        with c nofast Grow have cl: "claim_node st font idx (link_node b) d g e i err = (r, err', st')"
          by (simp add: sprite_position_for_def Let_def idx_def[symmetric] b_def[symmetric])
        have "r = Some (idx, d) \<and> state_ext st st' \<and>
           chain_walk (nodes (f_sprite_map (fonts st' font) idx)) g e i 0 = Hit d"
        proof (rule claim_node_spec[OF cl])
          show "d < length (nodes (link_node b))" using d(1) by (simp add: nodes_link_node)
          show "\<forall>j<d. sp_filled (nodes (link_node b) ! j) \<and> \<not> sp_matches (nodes (link_node b) ! j) g e i"
            using d by (simp add: nodes_link_node nth_append)
          fix s show "bucket_ext (f_sprite_map (fonts st font) idx) (node_set (link_node b) d s)"
            unfolding b_def[symmetric] d(1) by (rule ext_link_node)
        qed
        then show ?thesis by (simp add: idx_def)
      qed
    qed
  qed
qed

lemma position_for_hit:
  assumes "chain_walk (nodes (f_sprite_map (fonts st font) (unat (g AND 0x3ff)))) g e i 0 = Hit d"
  shows "sprite_position_for st font g e i ok err = (Some (unat (g AND 0x3ff), d), err, st)"
  using assms by (auto simp: sprite_position_for_def Let_def nodes_def)

lemma render_box_cell_ext:
  "state_ext st (fst (snd (render_box_cell st cell ok paint)))"
proof -
  obtain r err st1 where c: "sprite_position_for st box_font (box_glyph_id (c_ch cell)) 0 False ok 0 = (r, err, st1)"
    by (cases "sprite_position_for st box_font (box_glyph_id (c_ch cell)) 0 False ok 0") auto
  from position_for_spec[OF c] have e1: "state_ext st st1" by simp
  show ?thesis
  proof (cases r)
    case None
    with c e1 show ?thesis by (simp add: render_box_cell_def Let_def)
  next
    case (Some p)
    show ?thesis
    proof (cases "sp_rendered (deref st1 box_font p)")
      case True
      with c e1 Some show ?thesis by (simp add: render_box_cell_def Let_def)
    next
      case False
      define st2 where "st2 = st1\<lparr>fonts := (fonts st1)(box_font :=
           (fonts st1 box_font)\<lparr>f_sprite_map := (f_sprite_map (fonts st1 box_font))
              (fst p := node_set (f_sprite_map (fonts st1 box_font) (fst p)) (snd p)
                  ((node_at (f_sprite_map (fonts st1 box_font) (fst p)) (snd p))\<lparr>sp_rendered := True\<rparr>))\<rparr>)\<rparr>"
      have "state_ext st1 st2" unfolding st2_def
        by (rule state_ext_upd'[OF ext_node_set_rendered])
      with e1 have "state_ext st st2" by (rule state_ext_trans)
      moreover have "fst (snd (render_box_cell st cell ok paint)) = st2"
        using c Some False by (simp add: render_box_cell_def Let_def st2_def deref_def)
      ultimately show ?thesis by simp
    qed
  qed
qed

lemma run_call_ext: "state_ext st (run_call st c)"
proof (cases c)
  case (Position_for f g e i ok err)
  obtain r err' st' where "sprite_position_for st f g e i ok err = (r, err', st')"
    by (cases "sprite_position_for st f g e i ok err") auto
  with position_for_spec[OF this] Position_for show ?thesis by simp
next
  case (Render_box cell ok paint)
  then show ?thesis by (simp add: render_box_cell_ext)
qed

lemma run_calls_ext: "state_ext st (run_calls st calls)"
proof (induction calls arbitrary: st)
  case Nil
  then show ?case by (simp add: run_calls_def state_ext_refl)
next
  case (Cons c cs)
  have "state_ext st (run_call st c)" by (rule run_call_ext)
  moreover have "state_ext (run_call st c) (run_calls (run_call st c) cs)" by (rule Cons.IH)
  ultimately show ?case unfolding run_calls_def by (simp add: state_ext_trans run_calls_def[symmetric])
qed

text \<open>
  C6. Once \<open>sprite_position_for\<close> has returned a node for a font and a key, then after any
  further calls of \<open>sprite_position_for\<close> and \<open>render_box_cell\<close> a call with the same font
  and key returns the same node, with the coordinates it had, and changes neither the
  state nor the error value.
\<close>

theorem position_for_idempotent:
  assumes first: "sprite_position_for st font g e i ok err = (Some p, err1, st1)"
  shows "sprite_position_for (run_calls st1 calls) font g e i ok' err' = (Some p, err', run_calls st1 calls) \<and>
         xyz (deref (run_calls st1 calls) font p) = xyz (deref st1 font p)"
proof -
  from position_for_spec[OF first] have idx: "fst p = unat (g AND 0x3ff)"
    and hit: "chain_walk (nodes (f_sprite_map (fonts st1 font) (fst p))) g e i 0 = Hit (snd p)"
    by blast+
  have "state_ext st1 (run_calls st1 calls)" by (rule run_calls_ext)
  then have "bucket_ext (f_sprite_map (fonts st1 font) (fst p)) (f_sprite_map (fonts (run_calls st1 calls) font) (fst p))"
    by (simp add: state_ext_def)
  from hit_ext[OF hit this]
  have h2: "chain_walk (nodes (f_sprite_map (fonts (run_calls st1 calls) font) (fst p))) g e i 0 = Hit (snd p)"
    and x: "xyz (node_at (f_sprite_map (fonts (run_calls st1 calls) font) (fst p)) (snd p))
          = xyz (node_at (f_sprite_map (fonts st1 font) (fst p)) (snd p))"
    by simp_all
  have "sprite_position_for (run_calls st1 calls) font g e i ok' err'
      = (Some (unat (g AND 0x3ff), snd p), err', run_calls st1 calls)"
    by (rule position_for_hit) (use h2 idx in simp)
  moreover have "(unat (g AND 0x3ff), snd p) = p" using idx by (cases p) simp
  ultimately show ?thesis using x by (simp add: deref_def)
qed

lemma state_glyph5_first:
  "sprite_position_for state_16_2 box_font 5 0 False True 0 = (Some (5, 0), 0, state_glyph5)"
proof -
  have "fst (sprite_position_for state_16_2 box_font 5 0 False True 0) = Some (5, 0)"
    and "fst (snd (sprite_position_for state_16_2 box_font 5 0 False True 0)) = 0"
    by (simp_all add: spf_defs)
  then show ?thesis unfolding state_glyph5_def
    by (metis prod.collapse)
qed

lemma state_glyph5_xyz: "xyz (deref state_glyph5 box_font (5, 0)) = (0, 0, 0)"
  by (simp add: state_glyph5_def spf_defs)

theorem position_for_idempotent_witness:
  "sprite_position_for state_16_2 box_font 5 0 False True 0 = (Some (5, 0), 0, state_glyph5) \<and>
   sprite_position_for (run_calls state_glyph5 calls_after) box_font 5 0 False False 7
     = (Some (5, 0), 7, run_calls state_glyph5 calls_after) \<and>
   xyz (deref (run_calls state_glyph5 calls_after) box_font (5, 0)) = (0, 0, 0)"
  using position_for_idempotent [OF state_glyph5_first, of calls_after False 7]
    state_glyph5_first state_glyph5_xyz
  by simp

end
